theory Spec2Isabelle
  imports Complex_Main
begin

section \<open>Recall: the round controller of the digit-memory game\<close>

text \<open>
  The repository holds two versions of the page component \<open>HomePage\<close>:
  \<open>src/unnamed/part_000\<close> (with the best streak, the masked input and the highlighted
  mistakes) and \<open>src/packages/app/src/pages/index.tsx\<close> (without them). The constants, the
  function \<open>generateNumber\<close> and the body of \<open>startRound\<close> are the same text in both files;
  \<open>chunkDigits\<close> differs. The component of \<open>part_000\<close> is embedded in full, and the
  \<open>chunkDigits\<close> of \<open>pages/index.tsx\<close> beside it (as \<open>chunkDigits_index\<close>); what is
  proved of \<open>duration\<close>, \<open>generateNumber\<close>, \<open>startRound\<close> and the two timer callbacks
  is proved of the text both files share.

  Conventions of the embedding.
  \<^item> A JavaScript string is a \<open>string\<close>: one \<open>char\<close> per UTF-16 code unit, for the code
    units below 256. Code units from 256 on are outside the alphabet of the model.
  \<^item> A JavaScript number that the code only ever computes from integers by \<open>+\<close>, \<open>*\<close>,
    \<open>min\<close>, \<open>max\<close> and \<open>ceil\<close> is an \<open>int\<close>; the loss of precision of a double from
    \<open>2^53\<close> on is not modelled. The best streak is read with \<open>parseInt\<close>, which can
    return \<open>NaN\<close>, so it is a \<open>jsnum\<close>.
  \<^item> The values of \<open>Math.random()\<close> are doubles, and \<open>Math.random() * 10\<close> is the
    multiplication of doubles, with its rounding (\<open>float64\<close>, \<open>multiply\<close>).
  \<^item> The state of the component (the \<open>useState\<close> cells and the \<open>useRef\<close> cells) is a
    record, and an event handler is a function from the record to the record: a handler
    reads the state of the render it was created in, and every handler that is called was
    created in the latest render.
  \<^item> \<open>blurActive()\<close> and \<open>inputRef.current?.focus()\<close> move the focus of the page and touch
    no cell; they are left out.
\<close>

subsection \<open>Strings and numbers of the language\<close>

text \<open>\<open>Array.prototype.join\<close> on an array of strings.\<close>

fun join :: "string \<Rightarrow> string list \<Rightarrow> string" where
  "join sep [] = []"
| "join sep [x] = x"
| "join sep (x # y # ys) = x @ sep @ join sep (y # ys)"

text \<open>
  The line terminators of the language that are code units below 256: LF and CR
  (U+2028 and U+2029 are outside the alphabet). The atom \<open>.\<close> of a regular expression
  without the \<open>s\<close> flag matches every code unit but these.
\<close>

definition isLineTerminator :: "char \<Rightarrow> bool" where
  "isLineTerminator c \<longleftrightarrow> c = CHR 0x0A \<or> c = CHR 0x0D"

text \<open>
  The greedy match of \<open>.{1,size}\<close> at the start of \<open>s\<close>: as many code units as
  possible, at most \<open>size\<close>, none a line terminator. The empty result stands for
  "no match here", since the pattern needs one code unit at least.
\<close>

definition matchAt :: "nat \<Rightarrow> string \<Rightarrow> string" where
  "matchAt sz s = take sz (takeWhile (\<lambda>c. \<not> isLineTerminator c) s)"

text \<open>
  \<open>s.match(re)\<close> for the regular expression \<open>re\<close> with the pattern \<open>.{1,size}\<close> and the flag
  \<open>g\<close>, for \<open>size \<ge> 1\<close>: all matches from left to right. After a match the search goes on behind it; where nothing matches (at a line
  terminator) it goes on one code unit further. The empty list stands for \<open>null\<close>,
  which \<open>match\<close> returns when there is no match at all.
\<close>

function matchAll :: "nat \<Rightarrow> string \<Rightarrow> string list" where
  "matchAll sz s =
     (if s = [] then []
      else if matchAt sz s = [] then matchAll sz (tl s)
      else matchAt sz s # matchAll sz (drop (length (matchAt sz s)) s))"
  by pat_completeness auto
termination
  by (relation "measure (\<lambda>(sz, s). length s)") auto

declare matchAll.simps [simp del]

datatype error = SyntaxError

subsection \<open>The formatting functions\<close>

text \<open>
  \<open>chunkDigits\<close> of \<open>part_000\<close>. With \<open>size = 0\<close> the pattern is \<open>.{1,0}\<close>, which the
  \<open>RegExp\<close> constructor rejects with a \<open>SyntaxError\<close> (numbers out of order in the
  quantifier); every call in the repository leaves \<open>size\<close> at its default 3. The
  parameter \<open>size\<close> is written \<open>sz\<close> (\<open>size\<close> is a constant of HOL) and is a
  \<open>nat\<close>: negative and fractional sizes are not modelled.
\<close>

definition chunkDigits :: "string \<Rightarrow> nat \<Rightarrow> error + string" where
  "chunkDigits value sz =
     (if sz = 0 then Inl SyntaxError
      else
        let firstGroupLength = (if length value mod sz = 0 then sz else length value mod sz);
            first = take firstGroupLength value;
            rest = (case matchAll sz (drop firstGroupLength value) of
                      [] \<Rightarrow> None
                    | ms \<Rightarrow> Some (join '','' ms))
        in Inr (case rest of
                  None \<Rightarrow> first
                | Some r \<Rightarrow> if r = [] then first else first @ '','' @ r))"

text \<open>
  \<open>chunkDigits\<close> of \<open>pages/index.tsx\<close>: \<open>value.match(re)?.join(' ') ?? value\<close> with the same
  regular expression, so the matches joined by spaces, and \<open>value\<close> itself when there is
  no match.
\<close>

definition chunkDigits_index :: "string \<Rightarrow> nat \<Rightarrow> error + string" where
  "chunkDigits_index value sz =
     (if sz = 0 then Inl SyntaxError
      else Inr (case matchAll sz value of
                  [] \<Rightarrow> value
                | ms \<Rightarrow> join '' '' ms))"

text \<open>
  \<open>correct[i]\<close>: the code unit at index \<open>i\<close>, or \<open>undefined\<close> (here \<open>None\<close>) from the
  length of the string on.
\<close>

definition charAt :: "string \<Rightarrow> nat \<Rightarrow> char option" where
  "charAt s i = (if i < length s then Some (s ! i) else None)"

text \<open>
  \<open>highlightMistakes\<close>. \<open>highlightMistakes_parts\<close> is the array after \<open>.split('').map(...)\<close>:
  one entry per code unit of \<open>input\<close>, the code unit itself where it equals \<open>correct[i]\<close>
  and the code unit inside a red \<open>span\<close> (the template literal, \<open>flagged\<close>) where it does
  not. \<open>.join('')\<close> concatenates the entries. \<open>input\<close> is written \<open>inp\<close>.
\<close>

definition flagged :: "char \<Rightarrow> string" where
  "flagged digit = ''<span class=\"text-red-500 font-bold\">'' @ [digit] @ ''</span>''"

definition highlightMistakes_parts :: "string \<Rightarrow> string \<Rightarrow> string list" where
  "highlightMistakes_parts inp correct =
     map (\<lambda>(digit, i). if Some digit = charAt correct i then [digit] else flagged digit)
         (zip inp [0..<length inp])"

definition highlightMistakes :: "string \<Rightarrow> string \<Rightarrow> string" where
  "highlightMistakes inp correct = join [] (highlightMistakes_parts inp correct)"

subsection \<open>Numbers as strings and strings as numbers\<close>

datatype jsnum = NaN | Num int

definition digitChar :: "nat \<Rightarrow> char" where
  "digitChar d = char_of (48 + d)"

function natToString :: "nat \<Rightarrow> string" where
  "natToString n =
     (if n < 10 then [digitChar n] else natToString (n div 10) @ [digitChar (n mod 10)])"
  by pat_completeness auto
termination
  by (relation "measure id") auto

declare natToString.simps [simp del]

text \<open>
  \<open>Number.prototype.toString()\<close> on \<open>NaN\<close> and on the integers: the decimal digits, behind
  a minus sign for a negative number. (A double from \<open>10^21\<close> on is printed with an
  exponent; no level gets there.)
\<close>

definition toString :: "jsnum \<Rightarrow> string" where
  "toString x =
     (case x of
        NaN \<Rightarrow> ''NaN''
      | Num i \<Rightarrow> if i < 0 then CHR ''-'' # natToString (nat (- i)) else natToString (nat i))"

text \<open>The white space that \<open>parseInt\<close> skips, as far as it lies below 256.\<close>

definition isWhiteSpace :: "char \<Rightarrow> bool" where
  "isWhiteSpace c \<longleftrightarrow>
     c \<in> {CHR 0x09, CHR 0x0A, CHR 0x0B, CHR 0x0C, CHR 0x0D, CHR 0x20, CHR 0xA0}"

definition isDigit :: "char \<Rightarrow> bool" where
  "isDigit c \<longleftrightarrow> 48 \<le> (of_char c :: nat) \<and> (of_char c :: nat) \<le> 57"

definition digitValue :: "char \<Rightarrow> int" where
  "digitValue c = int (of_char c) - 48"

text \<open>
  \<open>parseInt(str, 10)\<close>, by the steps of the language definition: skip leading white
  space, read one sign, take the longest prefix of decimal digits; \<open>NaN\<close> when there is
  no digit, and the signed value of the digits otherwise.
\<close>

definition parseInt :: "string \<Rightarrow> jsnum" where
  "parseInt str =
     (let S = dropWhile isWhiteSpace str;
          sign = (if S \<noteq> [] \<and> hd S = CHR ''-'' then - 1 else 1);
          S' = (if S \<noteq> [] \<and> (hd S = CHR ''+'' \<or> hd S = CHR ''-'') then tl S else S);
          Z = takeWhile isDigit S'
      in if Z = [] then NaN
         else Num (sign * foldl (\<lambda>acc c. acc * 10 + digitValue c) 0 Z))"

text \<open>\<open>Math.max\<close> of two numbers: \<open>NaN\<close> as soon as one of them is.\<close>

definition Math_max :: "jsnum \<Rightarrow> jsnum \<Rightarrow> jsnum" where
  "Math_max a b =
     (case a of
        NaN \<Rightarrow> NaN
      | Num x \<Rightarrow> (case b of NaN \<Rightarrow> NaN | Num y \<Rightarrow> Num (max x y)))"

subsection \<open>Doubles\<close>

text \<open>
  The doubles that are finite and not negative. \<open>Float64 m e\<close> is the number
  \<open>m * 2^e\<close>; it is a double when \<open>m < 2^53\<close> and \<open>-1074 \<le> e \<le> 971\<close> (every finite
  double that is not negative, normal or subnormal, has this form, and every such number
  is one). \<open>valueOf\<close> is the real number it stands for.
\<close>

datatype float64 = Float64 nat int

fun isFloat64 :: "float64 \<Rightarrow> bool" where
  "isFloat64 (Float64 m e) \<longleftrightarrow> m < 2 ^ 53 \<and> - 1074 \<le> e \<and> e \<le> 971"

fun valueOf :: "float64 \<Rightarrow> real" where
  "valueOf (Float64 m e) = (if 0 \<le> e then real (m * 2 ^ nat e) else real m / 2 ^ nat (- e))"

text \<open>The number of binary digits of \<open>n\<close>: the least \<open>j\<close> with \<open>n < 2^j\<close>.\<close>

function bitLength :: "nat \<Rightarrow> nat" where
  "bitLength n = (if n = 0 then 0 else Suc (bitLength (n div 2)))"
  by pat_completeness auto
termination
  by (relation "measure id") auto

declare bitLength.simps [simp del]

text \<open>
  \<open>roundShift p k\<close> is \<open>p / 2^k\<close> rounded to the nearest integer, a tie going to the even
  one: the rounding mode of the arithmetic of the language.
\<close>

definition roundShift :: "nat \<Rightarrow> nat \<Rightarrow> nat" where
  "roundShift p k =
     (let q = p div 2 ^ k;
          r = p mod 2 ^ k
      in if 2 * r < 2 ^ k then q
         else if 2 ^ k < 2 * r then q + 1
         else if even q then q else q + 1)"

text \<open>
  The operator \<open>*\<close> on two such doubles: the exact product \<open>(m1 * m2) * 2^(e1 + e2)\<close>,
  rounded to the nearest double. The product is cut by \<open>k\<close> binary digits, as many as
  leave 53 significant ones and an exponent not below \<open>-1074\<close> (the subnormal range), and
  rounded there. (When the rounding carries, the result is \<open>2^53 * 2^(e + k)\<close>, which is
  the double \<open>2^52 * 2^(e + k + 1)\<close>. An overflow to \<open>Infinity\<close> is not modelled: the
  products of the program are below 10.)
\<close>

fun multiply :: "float64 \<Rightarrow> float64 \<Rightarrow> float64" where
  "multiply (Float64 m1 e1) (Float64 m2 e2) =
     (let p = m1 * m2;
          e = e1 + e2;
          k = max (bitLength p - 53) (nat (- 1074 - e))
      in Float64 (roundShift p k) (e + int k))"

declare multiply.simps [simp del]

text \<open>\<open>Math.floor\<close> on such a double: the largest integer not above it.\<close>

fun Math_floor :: "float64 \<Rightarrow> int" where
  "Math_floor (Float64 m e) =
     (if 0 \<le> e then int (m * 2 ^ nat e) else int (m div 2 ^ nat (- e)))"

subsection \<open>Generating the target\<close>

text \<open>
  \<open>generateNumber\<close>. \<open>rnd\<close> is the sequence of the doubles that \<open>Math.random()\<close> is going
  to return; \<open>Array.from({ length }, f)\<close> calls \<open>f\<close> once per index below \<open>length\<close> (no
  index when \<open>length\<close> is negative), \<open>f\<close> is \<open>Math.floor(Math.random() * 10)\<close> with the
  literal 10 the double \<open>10 * 2^0\<close>, and \<open>.join('')\<close> prints each number and
  concatenates. \<open>length\<close> is written \<open>len\<close>.
\<close>

definition generateNumber :: "int \<Rightarrow> (nat \<Rightarrow> float64) \<Rightarrow> string" where
  "generateNumber len rnd =
     join [] (map (\<lambda>i. toString (Num (Math_floor (multiply (rnd i) (Float64 10 0)))))
                [0..<nat len])"

subsection \<open>The component\<close>

datatype Phase = Ready | Show | Input | Result

text \<open>
  The message is kept in its parts: \<open>Blank\<close> is \<open>''\<close>, \<open>Correct\<close> is the text
  \<open>Correct! Level up\<close> with its emoji, and \<open>Wrong shown highlighted\<close> is the template of
  the failure with \<open>chunkDigits(number)\<close> and \<open>highlightMistakes(input, number)\<close> in its two
  holes (the emoji of the templates are code units outside the alphabet).
\<close>

datatype message = Blank | Correct | Wrong string string

text \<open>
  A timer of the browser that has been set and neither cleared nor (for a timeout) run:
  \<open>Timeout d\<close> from \<open>setTimeout(f, d)\<close>, \<open>Interval d\<close> from \<open>setInterval(f, d)\<close>. The
  component sets one callback only with each of the two, so the callback is not stored.
\<close>

datatype task = is_Timeout: Timeout int | is_Interval: Interval int

text \<open>
  The \<open>useState\<close> cells, the two timer \<open>useRef\<close> cells, and the part of the browser the
  handlers act on: the timers that are active (\<open>pending\<close>, by their id), the id the next
  timer gets (\<open>nextId\<close>; ids are positive), \<open>localStorage\<close>, and the values \<open>Math.random()\<close>
  is going to return (\<open>random\<close>). The cell \<open>mask\<close> is written \<open>masked\<close> (\<open>mask\<close> is a
  constant of HOL).
\<close>

record state =
  lastRoundFailed :: bool
  phase :: Phase
  level :: int
  number :: string
  input :: string
  message :: message
  countdown :: int
  masked :: bool
  highStreak :: jsnum
  timerRef :: "nat option"
  intervalRef :: "nat option"
  pending :: "(nat \<times> task) list"
  nextId :: nat
  localStorage :: "string \<rightharpoonup> string"
  random :: "nat \<Rightarrow> float64"

definition TIME_PER_DIGIT :: int where "TIME_PER_DIGIT = 650"
definition MIN_TIME :: int where "MIN_TIME = 1200"
definition MAX_TIME :: int where "MAX_TIME = 6000"

text \<open>
  The initializer of the cell \<open>highStreak\<close>; \<open>hasWindow\<close> is
  \<open>typeof window !== 'undefined'\<close>, and \<open>stored ? ... : 0\<close> takes 0 for \<open>null\<close> and for the
  empty string.
\<close>

definition initialHighStreak :: "bool \<Rightarrow> (string \<rightharpoonup> string) \<Rightarrow> jsnum" where
  "initialHighStreak hasWindow storage =
     (if hasWindow then
        (case storage ''highStreak'' of
           None \<Rightarrow> Num 0
         | Some stored \<Rightarrow> if stored \<noteq> [] then parseInt stored else Num 0)
      else Num 0)"

text \<open>The component when it is mounted in a browser: no timer is set yet.\<close>

definition initState :: "(string \<rightharpoonup> string) \<Rightarrow> (nat \<Rightarrow> float64) \<Rightarrow> state" where
  "initState storage rnd =
     \<lparr> lastRoundFailed = False, phase = Ready, level = 1, number = [], input = [],
       message = Blank, countdown = 0, masked = False,
       highStreak = initialHighStreak True storage,
       timerRef = None, intervalRef = None,
       pending = [], nextId = 1, localStorage = storage, random = rnd \<rparr>"

text \<open>
  The timers of the browser. \<open>clearTimeout\<close> and \<open>clearInterval\<close> take the timer with the
  given id out of the active ones (and do nothing when there is none); \<open>setTimeout\<close> and
  \<open>setInterval\<close> return a fresh id.
\<close>

definition clearTimeout :: "nat \<Rightarrow> state \<Rightarrow> state" where
  "clearTimeout i s = s\<lparr>pending := filter (\<lambda>(j, t). j \<noteq> i) (pending s)\<rparr>"

definition clearInterval :: "nat \<Rightarrow> state \<Rightarrow> state" where
  "clearInterval i s = s\<lparr>pending := filter (\<lambda>(j, t). j \<noteq> i) (pending s)\<rparr>"

definition setTimeout :: "int \<Rightarrow> state \<Rightarrow> nat \<times> state" where
  "setTimeout delay s =
     (nextId s, s\<lparr>pending := pending s @ [(nextId s, Timeout delay)], nextId := nextId s + 1\<rparr>)"

definition setInterval :: "int \<Rightarrow> state \<Rightarrow> nat \<times> state" where
  "setInterval delay s =
     (nextId s, s\<lparr>pending := pending s @ [(nextId s, Interval delay)], nextId := nextId s + 1\<rparr>)"

text \<open>\<open>clearTimers\<close>: a cell is cleared when its content is truthy (not \<open>null\<close>, not 0).\<close>

definition clearTimers :: "state \<Rightarrow> state" where
  "clearTimers s =
     (let s1 = (case timerRef s of
                  Some i \<Rightarrow> if i \<noteq> 0 then clearTimeout i s else s
                | None \<Rightarrow> s);
          s2 = (case intervalRef s1 of
                  Some i \<Rightarrow> if i \<noteq> 0 then clearInterval i s1 else s1
                | None \<Rightarrow> s1)
      in s2)"

text \<open>The local constant \<open>duration\<close> of \<open>startRound\<close>.\<close>

definition duration :: "int \<Rightarrow> int" where
  "duration nextLevel = min MAX_TIME (max MIN_TIME (nextLevel * TIME_PER_DIGIT))"

text \<open>The callback of the interval, and the callback of the timeout.\<close>

definition intervalCallback :: "state \<Rightarrow> state" where
  "intervalCallback s = s\<lparr>countdown := max 0 (countdown s - 1)\<rparr>"

definition timeoutCallback :: "state \<Rightarrow> state" where
  "timeoutCallback s = (clearTimers s)\<lparr>countdown := 0, phase := Input\<rparr>"

definition startRound :: "int \<Rightarrow> state \<Rightarrow> state" where
  "startRound nextLevel s =
     (let s1 = clearTimers s;
          value = generateNumber nextLevel (random s1);
          s2 = s1\<lparr>random := (\<lambda>i. random s1 (i + nat nextLevel))\<rparr>;
          s3 = s2\<lparr>number := value, input := [], phase := Show,
                  countdown := \<lceil>real_of_int (duration nextLevel) / 1000\<rceil>\<rparr>;
          (iid, s4) = setInterval 1000 s3;
          s5 = s4\<lparr>intervalRef := Some iid\<rparr>;
          (tid, s6) = setTimeout (duration nextLevel) s5
      in s6\<lparr>timerRef := Some tid\<rparr>)"

definition start :: "state \<Rightarrow> state" where
  "start s = startRound 1 (s\<lparr>level := 1, message := Blank\<rparr>)"

definition updateHighStreak :: "int \<Rightarrow> state \<Rightarrow> state" where
  "updateHighStreak newStreak s =
     (let high = Math_max (highStreak s) (Num newStreak)
      in s\<lparr>localStorage := (localStorage s)(''highStreak'' \<mapsto> toString high),
            highStreak := high\<rparr>)"

text \<open>
  \<open>submit\<close>. An exception of \<open>chunkDigits\<close> would leave the handler before any cell is
  set, so it is the result of the handler.
\<close>

definition submit :: "state \<Rightarrow> error + state" where
  "submit s =
     (if input s = number s then
        Inr ((updateHighStreak (level s) (s\<lparr>message := Correct, level := level s + 1\<rparr>))
               \<lparr>lastRoundFailed := False, phase := Result\<rparr>)
      else
        (let highlighted = highlightMistakes (input s) (number s)
         in case chunkDigits (number s) 3 of
              Inl e \<Rightarrow> Inl e
            | Inr shown \<Rightarrow>
                Inr (s\<lparr>message := Wrong shown highlighted, level := 1,
                       lastRoundFailed := True, phase := Result\<rparr>)))"

definition "next" :: "state \<Rightarrow> state" where
  "next s = startRound (level s) (s\<lparr>message := Blank\<rparr>)"

text \<open>
  The two handlers of the Enter key: \<open>handleKeyDown\<close> on the outer \<open>div\<close>, and \<open>handler\<close>,
  which the effect registers on \<open>window\<close>. The tests of \<open>phase\<close> in a handler read one and
  the same render, so at most one of them holds and they are written as one chain.
\<close>

definition handleKeyDown :: "string \<Rightarrow> state \<Rightarrow> state" where
  "handleKeyDown key s =
     (if key \<noteq> ''Enter'' then s
      else if phase s = Input then s
      else if phase s = Ready then start s
      else if phase s = Result then next s
      else s)"

definition handler :: "string \<Rightarrow> state \<Rightarrow> error + state" where
  "handler key s =
     (if key \<noteq> ''Enter'' then Inr s
      else if phase s = Ready then Inr (start s)
      else if phase s = Input \<and> input s \<noteq> [] then submit s
      else if phase s = Result then Inr (next s)
      else Inr s)"

text \<open>\<open>onSubmit\<close> of the form, \<open>onChange\<close> of the text field, \<open>onClick\<close> of the eye button.\<close>

definition onSubmit :: "state \<Rightarrow> error + state" where
  "onSubmit s = (if input s \<noteq> [] then submit s else Inr s)"

definition onChange :: "string \<Rightarrow> state \<Rightarrow> state" where
  "onChange v s = s\<lparr>input := v\<rparr>"

definition toggleMask :: "state \<Rightarrow> state" where
  "toggleMask s = s\<lparr>masked := \<not> masked s\<rparr>"

subsection \<open>The events of a session\<close>

text \<open>
  What the page and the browser can do to the component. An event is enabled where the
  render offers it:
  \<^item> the buttons Start and Next exist in the phases \<open>ready\<close> and \<open>result\<close>;
  \<^item> the form exists in the phase \<open>input\<close>; its submit button is \<open>disabled\<close> unless
    \<open>input.length = number.length\<close>, and a form whose submit button is disabled is not
    submitted, neither by a click nor by the Enter key in its text field;
  \<^item> the text field has \<open>maxLength = number.length\<close>, so the browser hands \<open>onChange\<close> no
    longer value;
  \<^item> a key can go down at any time, on the \<open>div\<close> (when the focus is inside it) and on
    \<open>window\<close>;
  \<^item> an interval fires while it is active, any number of times; a timeout fires while
    it is active and is no longer active when its callback runs;
  \<^item> the page can be loaded again: the component is mounted anew, on the
    \<open>localStorage\<close> as it is then, and the timers of the old page are gone.
  Time is not part of the model: timers fire in any order.
\<close>

datatype event =
    StartClick
  | DivKeyDown string
  | WindowKeyDown string
  | FormSubmit
  | InputChange string
  | MaskClick
  | NextClick
  | IntervalFire nat
  | TimeoutFire nat
  | Reload

fun enabled :: "event \<Rightarrow> state \<Rightarrow> bool" where
  "enabled StartClick s \<longleftrightarrow> phase s = Ready"
| "enabled (DivKeyDown key) s \<longleftrightarrow> True"
| "enabled (WindowKeyDown key) s \<longleftrightarrow> True"
| "enabled FormSubmit s \<longleftrightarrow> phase s = Input \<and> length (input s) = length (number s)"
| "enabled (InputChange v) s \<longleftrightarrow> phase s = Input \<and> length v \<le> length (number s)"
| "enabled MaskClick s \<longleftrightarrow> phase s = Input"
| "enabled NextClick s \<longleftrightarrow> phase s = Result"
| "enabled (IntervalFire i) s \<longleftrightarrow> list_ex (\<lambda>(j, t). j = i \<and> is_Interval t) (pending s)"
| "enabled (TimeoutFire i) s \<longleftrightarrow> list_ex (\<lambda>(j, t). j = i \<and> is_Timeout t) (pending s)"
| "enabled Reload s \<longleftrightarrow> True"

fun fire :: "event \<Rightarrow> state \<Rightarrow> error + state" where
  "fire StartClick s = Inr (start s)"
| "fire (DivKeyDown key) s = Inr (handleKeyDown key s)"
| "fire (WindowKeyDown key) s = handler key s"
| "fire FormSubmit s = onSubmit s"
| "fire (InputChange v) s = Inr (onChange v s)"
| "fire MaskClick s = Inr (toggleMask s)"
| "fire NextClick s = Inr (next s)"
| "fire (IntervalFire i) s = Inr (intervalCallback s)"
| "fire (TimeoutFire i) s =
     Inr (timeoutCallback (s\<lparr>pending := filter (\<lambda>(j, t). j \<noteq> i) (pending s)\<rparr>))"
| "fire Reload s = Inr (initState (localStorage s) (random s))"

text \<open>
  \<open>Math.random()\<close> returns a double from 0 (inclusive) up to 1 (exclusive): that is its
  contract, and the one assumption on the sequence \<open>random\<close>. (No \<open>float64\<close> is
  negative.)
\<close>

definition unitInterval :: "(nat \<Rightarrow> float64) \<Rightarrow> bool" where
  "unitInterval rnd \<longleftrightarrow> (\<forall>i. isFloat64 (rnd i) \<and> valueOf (rnd i) < 1)"

text \<open>
  The states of a session: the component mounted in a browser whose \<open>localStorage\<close> has no
  entry yet, and every state an enabled event leads to.
\<close>

inductive reachable :: "state \<Rightarrow> bool" where
  init: "unitInterval rnd \<Longrightarrow> reachable (initState Map.empty rnd)"
| step: "reachable s \<Longrightarrow> enabled e s \<Longrightarrow> fire e s = Inr s' \<Longrightarrow> reachable s'"

text \<open>A sequence of events, run from a state; \<open>None\<close> where an event is not enabled or throws.\<close>

fun run :: "event list \<Rightarrow> state \<Rightarrow> state option" where
  "run [] s = Some s"
| "run (e # es) s =
     (if enabled e s then (case fire e s of Inr s' \<Rightarrow> run es s' | Inl err \<Rightarrow> None) else None)"

subsection \<open>Invariants of a session\<close>

text \<open>
  Every active timer is the one its cell holds: an active timeout is the one in
  \<open>timerRef\<close>, an active interval the one in \<open>intervalRef\<close>, and the ids in use are
  positive and below the next id.
\<close>

definition timersTracked :: "state \<Rightarrow> bool" where
  "timersTracked s \<longleftrightarrow>
     0 < nextId s \<and>
     (\<forall>(j, t) \<in> set (pending s).
        0 < j \<and> j < nextId s \<and>
        (is_Timeout t \<longrightarrow> timerRef s = Some j) \<and> (is_Interval t \<longrightarrow> intervalRef s = Some j))"

text \<open>
  The level is positive, the random numbers to come are from the unit interval, the target
  is made of digits; a timer is active in the phase \<open>show\<close> only, where the input is
  empty; in the phases \<open>show\<close> and \<open>input\<close> the target is as long as the level says,
  and in the phase \<open>input\<close> the input is no longer than the target.
\<close>

definition roundTarget :: "state \<Rightarrow> bool" where
  "roundTarget s \<longleftrightarrow>
     1 \<le> level s \<and> unitInterval (random s) \<and> (\<forall>c \<in> set (number s). isDigit c) \<and>
     (pending s \<noteq> [] \<longrightarrow> phase s = Show) \<and>
     (phase s = Show \<longrightarrow> input s = []) \<and>
     (phase s = Show \<or> phase s = Input \<longrightarrow> int (length (number s)) = level s) \<and>
     (phase s = Input \<longrightarrow> length (input s) \<le> length (number s))"

text \<open>
  The best streak is a number that is not negative, and \<open>localStorage\<close> holds it in
  print, or holds nothing while it is 0.
\<close>

definition streakStored :: "state \<Rightarrow> bool" where
  "streakStored s \<longleftrightarrow>
     (case highStreak s of
        NaN \<Rightarrow> False
      | Num h \<Rightarrow>
          0 \<le> h \<and>
          (case localStorage s ''highStreak'' of
             None \<Rightarrow> h = 0
           | Some stored \<Rightarrow> stored = toString (Num h)))"

text \<open>The active timeouts and the active intervals.\<close>

definition activeTimeouts :: "state \<Rightarrow> (nat \<times> task) list" where
  "activeTimeouts s = filter (\<lambda>(j, t). is_Timeout t) (pending s)"

definition activeIntervals :: "state \<Rightarrow> (nat \<times> task) list" where
  "activeIntervals s = filter (\<lambda>(j, t). is_Interval t) (pending s)"

subsection \<open>Sample doubles\<close>

text \<open>The double 1/2.\<close>

definition oneHalf :: float64 where
  "oneHalf = Float64 1 (- 1)"

text \<open>
  Five doubles below 1, in turn: the double nearest to 0.3 (it is below 0.3, and its
  product with 10 rounds up to the double 3), the largest double below 1, the double 1/2,
  zero, and the least subnormal double.
\<close>

definition sampleDoubles :: "nat \<Rightarrow> float64" where
  "sampleDoubles i =
     [Float64 5404319552844595 (- 54), Float64 9007199254740991 (- 53), Float64 1 (- 1),
      Float64 0 0, Float64 1 (- 1074)] ! (i mod 5)"

subsection \<open>Two states of a sample session\<close>

text \<open>
  With every random number 1/2 every digit is 5. \<open>afterFirstRound\<close> is the state after
  the first round has been won, \<open>shortInput\<close> the state in the second round after one of
  the two digits has been typed.
\<close>

definition afterFirstRound :: state where
  "afterFirstRound =
     \<lparr> lastRoundFailed = False, phase = Result, level = 2, number = ''5'', input = ''5'',
       message = Correct, countdown = 0, masked = False, highStreak = Num 1,
       timerRef = Some 2, intervalRef = Some 1, pending = [], nextId = 3,
       localStorage = [''highStreak'' \<mapsto> ''1''], random = (\<lambda>i. oneHalf) \<rparr>"

definition shortInput :: state where
  "shortInput =
     \<lparr> lastRoundFailed = False, phase = Input, level = 2, number = ''55'', input = ''5'',
       message = Blank, countdown = 0, masked = False, highStreak = Num 1,
       timerRef = Some 4, intervalRef = Some 3, pending = [], nextId = 5,
       localStorage = [''highStreak'' \<mapsto> ''1''], random = (\<lambda>i. oneHalf) \<rparr>"

subsection \<open>The words of the specification\<close>

text \<open>\<open>clamp(x, lo, hi)\<close> as the specification uses it: \<open>x\<close> brought into \<open>lo..hi\<close>.\<close>

definition clamp :: "int \<Rightarrow> int \<Rightarrow> int \<Rightarrow> int" where
  "clamp x lo hi = (if x < lo then lo else if hi < x then hi else x)"

text \<open>
  A list cut into consecutive groups of \<open>n\<close> from the left, the last one shorter when the
  length is no multiple of \<open>n\<close>.
\<close>

function groupsFromLeft :: "nat \<Rightarrow> 'a list \<Rightarrow> 'a list list" where
  "groupsFromLeft n xs =
     (if n = 0 \<or> xs = [] then [] else take n xs # groupsFromLeft n (drop n xs))"
  by pat_completeness auto
termination
  by (relation "measure (\<lambda>(n, xs). length xs)") auto

declare groupsFromLeft.simps [simp del]

text \<open>
  "Groups from the right": the list is cut into groups of \<open>n\<close> starting at its right end,
  so that the group which may be shorter is the first.
\<close>

definition groupsFromRight :: "nat \<Rightarrow> 'a list \<Rightarrow> 'a list list" where
  "groupsFromRight n xs = rev (map rev (groupsFromLeft n (rev xs)))"

text \<open>
  The length the specification gives the first group: \<open>len % n\<close>, or \<open>n\<close> when \<open>len\<close> is
  divisible by \<open>n\<close>.
\<close>

definition firstGroupLength :: "nat \<Rightarrow> nat \<Rightarrow> nat" where
  "firstGroupLength len n = (if len mod n = 0 then n else len mod n)"

section \<open>Properties\<close>

subsection \<open>Helpers\<close>

subsubsection \<open>Formatting\<close>

lemma join_empty_sep: "join [] xs = concat xs"
  by (induction "[] :: string" xs rule: join.induct) simp_all

lemma chunkDigits_three: "\<exists>shown. chunkDigits value 3 = Inr shown"
  by (simp add: chunkDigits_def Let_def)

lemma length_highlightMistakes_parts:
  "length (highlightMistakes_parts inp correct) = length inp"
  by (simp add: highlightMistakes_parts_def)

lemma nth_highlightMistakes_parts:
  assumes "i < length inp"
  shows "highlightMistakes_parts inp correct ! i =
           (if charAt correct i = Some (inp ! i) then [inp ! i] else flagged (inp ! i))"
  using assms by (auto simp: highlightMistakes_parts_def)

subsubsection \<open>Timers and the start of a round\<close>

lemma in_pending_clearTimers:
  "(j, t) \<in> set (pending (clearTimers s)) \<longleftrightarrow>
     (j, t) \<in> set (pending s) \<and> (timerRef s \<noteq> Some j \<or> j = 0) \<and> (intervalRef s \<noteq> Some j \<or> j = 0)"
  by (cases "timerRef s"; cases "intervalRef s")
     (auto simp: clearTimers_def clearTimeout_def clearInterval_def Let_def)

lemma clearTimers_tracked:
  assumes "timersTracked s"
  shows "pending (clearTimers s) = []"
proof -
  have "(j, t) \<notin> set (pending (clearTimers s))" for j t
  proof
    assume "(j, t) \<in> set (pending (clearTimers s))"
    then have m: "(j, t) \<in> set (pending s)" and a: "timerRef s \<noteq> Some j \<or> j = 0"
      and b: "intervalRef s \<noteq> Some j \<or> j = 0"
      by (simp_all add: in_pending_clearTimers)
    from assms m have "0 < j" and "is_Timeout t \<longrightarrow> timerRef s = Some j"
      and "is_Interval t \<longrightarrow> intervalRef s = Some j"
      unfolding timersTracked_def by auto
    with a b show False by (cases t) auto
  qed
  note none = this
  show ?thesis
  proof (cases "pending (clearTimers s)")
    case Nil
    then show ?thesis .
  next
    case (Cons x xs)
    then have "x \<in> set (pending (clearTimers s))" by simp
    with none show ?thesis by (cases x) simp
  qed
qed

lemma clearTimers_other:
  "phase (clearTimers s) = phase s" "level (clearTimers s) = level s"
  "number (clearTimers s) = number s" "input (clearTimers s) = input s"
  "message (clearTimers s) = message s" "countdown (clearTimers s) = countdown s"
  "masked (clearTimers s) = masked s" "highStreak (clearTimers s) = highStreak s"
  "timerRef (clearTimers s) = timerRef s" "intervalRef (clearTimers s) = intervalRef s"
  "nextId (clearTimers s) = nextId s" "localStorage (clearTimers s) = localStorage s"
  "random (clearTimers s) = random s" "lastRoundFailed (clearTimers s) = lastRoundFailed s"
  by (simp_all add: clearTimers_def clearTimeout_def clearInterval_def Let_def split: option.split)

lemma startRound_fields:
  "number (startRound L s) = generateNumber L (random s)"
  "input (startRound L s) = []"
  "phase (startRound L s) = Show"
  "countdown (startRound L s) = \<lceil>real_of_int (duration L) / 1000\<rceil>"
  "random (startRound L s) = (\<lambda>i. random s (i + nat L))"
  "pending (startRound L s) =
     pending (clearTimers s) @ [(nextId s, Interval 1000), (Suc (nextId s), Timeout (duration L))]"
  "nextId (startRound L s) = Suc (Suc (nextId s))"
  "intervalRef (startRound L s) = Some (nextId s)"
  "timerRef (startRound L s) = Some (Suc (nextId s))"
  "level (startRound L s) = level s"
  "message (startRound L s) = message s"
  "masked (startRound L s) = masked s"
  "highStreak (startRound L s) = highStreak s"
  "localStorage (startRound L s) = localStorage s"
  "lastRoundFailed (startRound L s) = lastRoundFailed s"
  by (simp_all add: startRound_def setInterval_def setTimeout_def Let_def clearTimers_other)

subsubsection \<open>Digits and numbers in print\<close>

lemma digitChar_code: "d < 10 \<Longrightarrow> of_char (digitChar d) = 48 + d"
  by (simp add: digitChar_def)

lemma isDigit_digitChar: "d < 10 \<Longrightarrow> isDigit (digitChar d)"
  by (simp add: isDigit_def digitChar_code)

lemma digitValue_digitChar: "d < 10 \<Longrightarrow> digitValue (digitChar d) = int d"
  by (simp add: digitValue_def digitChar_code)

lemma isDigit_not_special:
  assumes "isDigit c"
  shows "\<not> isWhiteSpace c" "c \<noteq> CHR ''-''" "c \<noteq> CHR ''+''" "\<not> isLineTerminator c" "c \<noteq> CHR '',''" "c \<noteq> CHR '' ''"
  using assms by (auto simp: isDigit_def isWhiteSpace_def isLineTerminator_def)

lemma natToString_digits: "\<forall>c \<in> set (natToString n). isDigit c"
proof (induction n rule: natToString.induct)
  case (1 n)
  show ?case
  proof (cases "n < 10")
    case True
    then show ?thesis by (subst natToString.simps) (simp add: isDigit_digitChar)
  next
    case False
    with 1 show ?thesis by (subst natToString.simps) (simp add: isDigit_digitChar)
  qed
qed

lemma natToString_nonempty: "natToString n \<noteq> []"
  by (subst natToString.simps) simp

lemma natToString_value:
  "foldl (\<lambda>acc c. acc * 10 + digitValue c) 0 (natToString n) = int n"
proof (induction n rule: natToString.induct)
  case (1 n)
  show ?case
  proof (cases "n < 10")
    case True
    then show ?thesis by (subst natToString.simps) (simp add: digitValue_digitChar)
  next
    case False
    with 1 have "foldl (\<lambda>acc c. acc * 10 + digitValue c) 0 (natToString (n div 10)) = int (n div 10)"
      by simp
    with False show ?thesis
      by (subst natToString.simps) (simp add: digitValue_digitChar zdiv_int zmod_int)
  qed
qed

lemma parseInt_digits:
  assumes "ds \<noteq> []" and "\<forall>c \<in> set ds. isDigit c"
  shows "parseInt ds = Num (foldl (\<lambda>acc c. acc * 10 + digitValue c) 0 ds)"
proof -
  obtain c cs where ds: "ds = c # cs" using assms(1) by (cases ds) auto
  with assms(2) have c: "isDigit c" by simp
  have S: "dropWhile isWhiteSpace ds = ds"
    using ds c by (simp add: isDigit_not_special)
  have h: "hd ds \<noteq> CHR ''-''" "hd ds \<noteq> CHR ''+''"
    using ds c by (simp_all add: isDigit_not_special)
  have Z: "takeWhile isDigit ds = ds"
    using assms(2) by (simp add: takeWhile_eq_all_conv)
  have "parseInt ds =
          (if takeWhile isDigit ds = [] then NaN
           else Num (foldl (\<lambda>acc c. acc * 10 + digitValue c) 0 (takeWhile isDigit ds)))"
    unfolding parseInt_def Let_def S using h assms(1) by simp
  then show ?thesis
    unfolding Z using assms(1) by simp
qed

lemma parseInt_toString:
  assumes "0 \<le> h"
  shows "parseInt (toString (Num h)) = Num h"
  using assms
  by (simp add: toString_def parseInt_digits natToString_nonempty natToString_digits natToString_value)

lemma toString_Num_nonempty: "0 \<le> h \<Longrightarrow> toString (Num h) \<noteq> []"
  by (simp add: toString_def natToString_nonempty)

subsubsection \<open>The handlers, cell by cell\<close>

lemma start_fields:
  "number (start s) = generateNumber 1 (random s)"
  "input (start s) = []"
  "phase (start s) = Show"
  "countdown (start s) = \<lceil>real_of_int (duration 1) / 1000\<rceil>"
  "random (start s) = (\<lambda>i. random s (i + 1))"
  "pending (start s) =
     pending (clearTimers s) @ [(nextId s, Interval 1000), (Suc (nextId s), Timeout (duration 1))]"
  "nextId (start s) = Suc (Suc (nextId s))"
  "intervalRef (start s) = Some (nextId s)"
  "timerRef (start s) = Some (Suc (nextId s))"
  "level (start s) = 1"
  "highStreak (start s) = highStreak s"
  "localStorage (start s) = localStorage s"
proof -
  let ?s = "s\<lparr>level := 1, message := Blank\<rparr>"
  have c: "pending (clearTimers ?s) = pending (clearTimers s)"
    by (simp add: clearTimers_def clearTimeout_def clearInterval_def Let_def split: option.split)
  show "pending (start s) =
     pending (clearTimers s) @ [(nextId s, Interval 1000), (Suc (nextId s), Timeout (duration 1))]"
    unfolding start_def startRound_fields c by simp
qed (simp_all add: start_def startRound_fields)

lemma next_fields:
  "number (next s) = generateNumber (level s) (random s)"
  "input (next s) = []"
  "phase (next s) = Show"
  "countdown (next s) = \<lceil>real_of_int (duration (level s)) / 1000\<rceil>"
  "random (next s) = (\<lambda>i. random s (i + nat (level s)))"
  "pending (next s) =
     pending (clearTimers s) @
       [(nextId s, Interval 1000), (Suc (nextId s), Timeout (duration (level s)))]"
  "nextId (next s) = Suc (Suc (nextId s))"
  "intervalRef (next s) = Some (nextId s)"
  "timerRef (next s) = Some (Suc (nextId s))"
  "level (next s) = level s"
  "highStreak (next s) = highStreak s"
  "localStorage (next s) = localStorage s"
proof -
  let ?s = "s\<lparr>message := Blank\<rparr>"
  have c: "pending (clearTimers ?s) = pending (clearTimers s)"
    by (simp add: clearTimers_def clearTimeout_def clearInterval_def Let_def split: option.split)
  show "pending (next s) =
     pending (clearTimers s) @
       [(nextId s, Interval 1000), (Suc (nextId s), Timeout (duration (level s)))]"
    unfolding next_def startRound_fields c by simp
qed (simp_all add: next_def startRound_fields)

lemma submit_fields:
  assumes "submit s = Inr s'"
  shows "pending s' = pending s" "nextId s' = nextId s" "timerRef s' = timerRef s"
    "intervalRef s' = intervalRef s" "countdown s' = countdown s" "number s' = number s"
    "input s' = input s" "random s' = random s" "phase s' = Result"
    "level s' = level s + 1 \<or> level s' = 1"
  using assms
  by (auto simp: submit_def updateHighStreak_def Let_def split: if_splits sum.splits)

lemma timeoutCallback_fields:
  "countdown (timeoutCallback s) = 0" "phase (timeoutCallback s) = Input"
  "pending (timeoutCallback s) = pending (clearTimers s)"
  "nextId (timeoutCallback s) = nextId s" "timerRef (timeoutCallback s) = timerRef s"
  "intervalRef (timeoutCallback s) = intervalRef s" "level (timeoutCallback s) = level s"
  "number (timeoutCallback s) = number s" "random (timeoutCallback s) = random s"
  "highStreak (timeoutCallback s) = highStreak s"
  "localStorage (timeoutCallback s) = localStorage s" "input (timeoutCallback s) = input s"
  by (simp_all add: timeoutCallback_def clearTimers_other)

text \<open>Every event runs one of the handlers, or leaves the state as it is.\<close>

lemma fire_cases:
  assumes "enabled e s" and "fire e s = Inr s'"
  obtains (same) "s' = s"
  | (start) "s' = start s"
  | (again) "s' = next s"
  | (submit) "phase s = Input" and "submit s = Inr s'"
  | (change) v where "phase s = Input" and "length v \<le> length (number s)"
      and "s' = onChange v s"
  | (mask) "s' = toggleMask s"
  | (tick) "s' = intervalCallback s"
  | (expire) i where "pending s \<noteq> []"
      and "s' = timeoutCallback (s\<lparr>pending := filter (\<lambda>(j, t). j \<noteq> i) (pending s)\<rparr>)"
  | (reload) "e = Reload" and "s' = initState (localStorage s) (random s)"
proof (cases e)
  case StartClick
  with assms have "s' = start s" by simp
  then show ?thesis by (rule start)
next
  case (DivKeyDown key)
  with assms have "s' = handleKeyDown key s" by simp
  then have "s' = s \<or> s' = start s \<or> s' = next s"
    by (simp add: handleKeyDown_def)
  then show ?thesis using same start again by blast
next
  case (WindowKeyDown key)
  with assms have "handler key s = Inr s'" by simp
  then have "s' = s \<or> s' = start s \<or> s' = next s \<or> (phase s = Input \<and> submit s = Inr s')"
    by (auto simp: handler_def split: if_splits)
  then show ?thesis using same start again submit by blast
next
  case FormSubmit
  with assms have "phase s = Input" and "onSubmit s = Inr s'" by simp_all
  then have "s' = s \<or> (phase s = Input \<and> submit s = Inr s')"
    by (auto simp: onSubmit_def split: if_splits)
  then show ?thesis using same submit by blast
next
  case (InputChange v)
  with assms have "phase s = Input" and "length v \<le> length (number s)"
    and "s' = onChange v s" by simp_all
  then show ?thesis by (rule change)
next
  case MaskClick
  with assms have "s' = toggleMask s" by simp
  then show ?thesis by (rule mask)
next
  case NextClick
  with assms have "s' = next s" by simp
  then show ?thesis by (rule again)
next
  case (IntervalFire i)
  with assms have "s' = intervalCallback s" by simp
  then show ?thesis by (rule tick)
next
  case (TimeoutFire i)
  with assms have "pending s \<noteq> []"
    and "s' = timeoutCallback (s\<lparr>pending := filter (\<lambda>(j, t). j \<noteq> i) (pending s)\<rparr>)"
    by (auto simp: list_ex_iff)
  then show ?thesis by (rule expire)
next
  case Reload
  with assms have "e = Reload" and "s' = initState (localStorage s) (random s)" by simp_all
  then show ?thesis by (rule reload)
qed

subsubsection \<open>The countdown\<close>

lemma duration_bounds: "1200 \<le> duration L" "duration L \<le> 6000"
  by (simp_all add: duration_def MIN_TIME_def MAX_TIME_def)

lemma countdown_start_nonneg: "0 \<le> \<lceil>real_of_int (duration L) / 1000\<rceil>"
proof -
  have "0 \<le> real_of_int (duration L) / 1000"
    using duration_bounds(1)[of L] by simp
  then show ?thesis by (simp add: ceiling_le_iff [symmetric] le_ceiling_iff)
qed

lemma countdown_nonneg: "reachable s \<Longrightarrow> 0 \<le> countdown s"
proof (induction rule: reachable.induct)
  case (init rnd)
  show ?case by (simp add: initState_def)
next
  case (step s e s')
  from step.hyps(2,3) show ?case
  proof (cases rule: fire_cases)
    case same
    with step.IH show ?thesis by simp
  next
    case start
    then show ?thesis by (simp only: start_fields countdown_start_nonneg)
  next
    case again
    then show ?thesis by (simp only: next_fields countdown_start_nonneg)
  next
    case submit
    with step.IH show ?thesis by (simp add: submit_fields)
  next
    case (change v)
    with step.IH show ?thesis by (simp add: onChange_def)
  next
    case mask
    with step.IH show ?thesis by (simp add: toggleMask_def)
  next
    case tick
    then show ?thesis by (simp add: intervalCallback_def)
  next
    case (expire i)
    then show ?thesis by (simp add: timeoutCallback_fields)
  next
    case reload
    then show ?thesis by (simp add: initState_def)
  qed
qed

subsubsection \<open>Runs\<close>

lemma run_reachable:
  "reachable s \<Longrightarrow> run es s = Some s' \<Longrightarrow> reachable s'"
proof (induction es arbitrary: s)
  case Nil
  then show ?case by simp
next
  case (Cons e es)
  from Cons.prems(2) obtain s1 where e: "enabled e s" and f: "fire e s = Inr s1"
    and r: "run es s1 = Some s'"
    by (auto split: if_splits sum.splits)
  from Cons.prems(1) e f have "reachable s1" by (rule reachable.step)
  with r show ?case by (rule Cons.IH[rotated])
qed

lemma unitInterval_half: "unitInterval (\<lambda>i. oneHalf)"
  by (simp add: unitInterval_def oneHalf_def)

lemma reachable_start_init:
  "unitInterval rnd \<Longrightarrow> reachable (start (initState Map.empty rnd))"
  by (rule reachable.step[where e = StartClick, OF reachable.init]) (simp_all add: initState_def)

subsubsection \<open>Every active timer is in its cell\<close>

lemma timersTracked_startRound:
  assumes "timersTracked s"
  shows "timersTracked (startRound L s)"
    and "pending (startRound L s) = [(nextId s, Interval 1000), (Suc (nextId s), Timeout (duration L))]"
proof -
  show p: "pending (startRound L s) = [(nextId s, Interval 1000), (Suc (nextId s), Timeout (duration L))]"
    by (simp add: startRound_fields clearTimers_tracked[OF assms])
  from assms have "0 < nextId s" by (simp add: timersTracked_def)
  then show "timersTracked (startRound L s)"
    unfolding timersTracked_def p by (simp add: startRound_fields)
qed

lemma timersTracked_fields:
  assumes "timersTracked s" and "pending s' = pending s" and "nextId s' = nextId s"
    and "timerRef s' = timerRef s" and "intervalRef s' = intervalRef s"
  shows "timersTracked s'"
  using assms by (simp add: timersTracked_def)

lemma timersTracked_start: "timersTracked s \<Longrightarrow> timersTracked (start s)"
  unfolding start_def by (rule timersTracked_startRound(1)) (simp add: timersTracked_def)

lemma timersTracked_next: "timersTracked s \<Longrightarrow> timersTracked (next s)"
  unfolding next_def by (rule timersTracked_startRound(1)) (simp add: timersTracked_def)

lemma timersTracked_expire:
  assumes "timersTracked s"
  shows "timersTracked (timeoutCallback (s\<lparr>pending := filter (\<lambda>(j, t). j \<noteq> i) (pending s)\<rparr>))"
proof -
  let ?s1 = "s\<lparr>pending := filter (\<lambda>(j, t). j \<noteq> i) (pending s)\<rparr>"
  from assms have t1: "timersTracked ?s1" by (auto simp: timersTracked_def)
  from assms have "0 < nextId s" by (simp add: timersTracked_def)
  then show ?thesis
    by (simp add: timersTracked_def timeoutCallback_fields clearTimers_tracked[OF t1])
qed

lemma reachable_timersTracked: "reachable s \<Longrightarrow> timersTracked s"
proof (induction rule: reachable.induct)
  case (init rnd)
  show ?case by (simp add: initState_def timersTracked_def)
next
  case (step s e s')
  from step.hyps(2,3) show ?case
  proof (cases rule: fire_cases)
    case same
    with step.IH show ?thesis by simp
  next
    case start
    with step.IH show ?thesis by (simp add: timersTracked_start)
  next
    case again
    with step.IH show ?thesis by (simp add: timersTracked_next)
  next
    case submit
    with step.IH show ?thesis by (auto intro: timersTracked_fields simp: submit_fields)
  next
    case (change v)
    with step.IH show ?thesis by (auto intro: timersTracked_fields simp: onChange_def)
  next
    case mask
    with step.IH show ?thesis by (auto intro: timersTracked_fields simp: toggleMask_def)
  next
    case tick
    with step.IH show ?thesis by (auto intro: timersTracked_fields simp: intervalCallback_def)
  next
    case (expire i)
    with step.IH show ?thesis by (simp add: timersTracked_expire)
  next
    case reload
    then show ?thesis by (simp add: initState_def timersTracked_def)
  qed
qed

lemma pending_start:
  assumes "timersTracked s"
  shows "pending (start s) = [(nextId s, Interval 1000), (Suc (nextId s), Timeout (duration 1))]"
  using assms by (simp add: start_fields clearTimers_tracked)

lemma pending_next:
  assumes "timersTracked s"
  shows "pending (next s) = [(nextId s, Interval 1000), (Suc (nextId s), Timeout (duration (level s)))]"
  using assms by (simp add: next_fields clearTimers_tracked)

subsubsection \<open>The generated target\<close>

lemma digitChar_values:
  "digitChar 0 = CHR ''0''" "digitChar (Suc 0) = CHR ''1''" "digitChar 2 = CHR ''2''"
  "digitChar 3 = CHR ''3''" "digitChar 4 = CHR ''4''" "digitChar 5 = CHR ''5''"
  "digitChar 6 = CHR ''6''" "digitChar 7 = CHR ''7''" "digitChar 8 = CHR ''8''"
  "digitChar 9 = CHR ''9''"
  by code_simp+

lemma digitChar_in_digits:
  assumes "d < 10"
  shows "digitChar d \<in> set ''0123456789''"
proof -
  from assms have "d = 0 \<or> d = 1 \<or> d = 2 \<or> d = 3 \<or> d = 4 \<or> d = 5 \<or> d = 6 \<or> d = 7 \<or> d = 8 \<or> d = 9"
    by arith
  then show ?thesis
    by (elim disjE) (simp_all add: digitChar_values)
qed

lemma isDigit_iff: "isDigit c \<longleftrightarrow> c \<in> set ''0123456789''"
proof
  assume "isDigit c"
  then have b: "48 \<le> (of_char c :: nat)" "(of_char c :: nat) \<le> 57"
    by (simp_all add: isDigit_def)
  define d where "d = (of_char c :: nat) - 48"
  with b have d: "d < 10" and "of_char c = 48 + d" by simp_all
  then have "of_char c = (of_char (digitChar d) :: nat)" by (simp add: digitChar_code)
  then have "c = digitChar d" by simp
  with d show "c \<in> set ''0123456789''" by (simp only: digitChar_in_digits)
next
  assume "c \<in> set ''0123456789''"
  then show "isDigit c" by (auto simp: isDigit_def)
qed

text \<open>
  The digit bound. For a double \<open>m * 2^(-n)\<close> below 1 the product with 10 has at most 57
  binary digits, so at most 4 are cut, and the rounding adds at most 8 units of
  \<open>2^(-n)\<close> to \<open>10 * m \<le> 10 * 2^n - 10\<close>: the rounded product stays below 10 (it can be
  above the exact product, as on the double nearest to 0.3, where it is 3).
\<close>

lemma bitLength_le: "p < 2 ^ j \<Longrightarrow> bitLength p \<le> j"
proof (induction j arbitrary: p)
  case 0
  then show ?case by (simp add: bitLength.simps)
next
  case (Suc j)
  show ?case
  proof (cases "p = 0")
    case True
    then show ?thesis by (simp add: bitLength.simps)
  next
    case False
    from Suc.prems have "p div 2 < 2 ^ j" by simp
    then have "bitLength (p div 2) \<le> j" by (rule Suc.IH)
    with False show ?thesis by (subst bitLength.simps) simp
  qed
qed

lemma roundShift_le: "roundShift p k * 2 ^ k \<le> p + 2 ^ k div 2"
proof -
  define d :: nat where "d = 2 ^ k"
  define q where "q = p div d"
  define r where "r = p mod d"
  have p: "p = q * d + r" by (simp add: q_def r_def)
  have rs: "roundShift p k = q \<or> (roundShift p k = q + 1 \<and> d \<le> 2 * r)"
    by (auto simp: roundShift_def Let_def d_def q_def r_def)
  then show ?thesis
  proof
    assume "roundShift p k = q"
    then show ?thesis using p by (simp add: d_def[symmetric])
  next
    assume a: "roundShift p k = q + 1 \<and> d \<le> 2 * r"
    then have "d \<le> r + d div 2" by linarith
    then have "q * d + d \<le> q * d + r + d div 2" by simp
    with a p show ?thesis by (simp add: d_def[symmetric])
  qed
qed

lemma floor_times_ten:
  assumes "isFloat64 x" and "valueOf x < 1"
  shows "0 \<le> Math_floor (multiply x (Float64 10 0))"
    and "Math_floor (multiply x (Float64 10 0)) < 10"
proof -
  obtain m e where x: "x = Float64 m e" by (cases x)
  with assms(1) have m: "m < 2 ^ 53" and e: "- 1074 \<le> e" by simp_all
  define k where "k = bitLength (m * 10) - 53"
  define q where "q = roundShift (m * 10) k"
  have prod: "multiply x (Float64 10 0) = Float64 q (e + int k)"
    using e by (simp add: x k_def q_def Let_def multiply.simps)
  show "0 \<le> Math_floor (multiply x (Float64 10 0))"
    unfolding prod by simp
  from m have "m * 10 < 2 ^ 57" by simp
  then have "bitLength (m * 10) \<le> 57" by (rule bitLength_le)
  then have k4: "k \<le> 4" by (simp add: k_def)
  then have "(2::nat) ^ k \<le> 2 ^ 4" by (intro power_increasing) simp_all
  then have "(2::nat) ^ k div 2 \<le> 8" by simp
  with roundShift_le[of "m * 10" k] have q: "q * 2 ^ k \<le> m * 10 + 8"
    by (simp add: q_def)
  show "Math_floor (multiply x (Float64 10 0)) < 10"
  proof (cases "0 \<le> e")
    case True
    with assms(2) x have "real (m * 2 ^ nat e) < 1" by simp
    then have "m * 2 ^ nat e < 1" by linarith
    then have "m = 0" by simp
    then have "q = 0" by (simp add: q_def k_def bitLength.simps roundShift_def)
    then show ?thesis unfolding prod by simp
  next
    case False
    define n where "n = nat (- e)"
    with False have n: "e = - int n" by simp
    from assms(2) x False have "real m / 2 ^ n < 1" by (simp add: n_def)
    then have "real m < 2 ^ n" by (simp add: divide_less_eq)
    then have mn: "m < 2 ^ n" by (metis of_nat_less_iff of_nat_numeral of_nat_power)
    with q have qk: "q * 2 ^ k < 10 * 2 ^ n" by linarith
    show ?thesis
    proof (cases "n \<le> k")
      case True
      then have "(2::nat) ^ k = 2 ^ (k - n) * 2 ^ n" by (simp add: power_add[symmetric])
      with qk have "q * 2 ^ (k - n) * 2 ^ n < 10 * 2 ^ n" by (simp add: mult.assoc)
      then have "q * 2 ^ (k - n) < 10" by simp
      then have "int (q * 2 ^ (k - n)) < 10"
        by (metis of_nat_less_iff of_nat_numeral)
      moreover from True n have "0 \<le> e + int k" and "nat (e + int k) = k - n" by simp_all
      ultimately show ?thesis unfolding prod by simp
    next
      case False
      then have "(2::nat) ^ n = 2 ^ (n - k) * 2 ^ k" by (simp add: power_add[symmetric])
      with qk have "q * 2 ^ k < (10 * 2 ^ (n - k)) * 2 ^ k" by (simp add: mult.assoc)
      then have "q < 10 * 2 ^ (n - k)" by simp
      then have "q div 2 ^ (n - k) < 10" by (simp add: less_mult_imp_div_less)
      moreover from False n have "\<not> 0 \<le> e + int k" and "nat (- (e + int k)) = n - k" by simp_all
      ultimately show ?thesis unfolding prod by simp
    qed
  qed
qed

lemma bitLength_values:
  "bitLength 0 = 0"
  "bitLength 10 = 4"
  "bitLength 54043195528445950 = 56"
  "bitLength 90071992547409910 = 57"
  by (simp_all add: bitLength.simps)

lemma digit_half: "Math_floor (multiply oneHalf (Float64 10 0)) = 5"
  by (simp add: oneHalf_def multiply.simps Let_def bitLength_values roundShift_def)

lemma toString_digit:
  assumes "0 \<le> d" and "d < 10"
  shows "toString (Num d) = [digitChar (nat d)]"
  using assms by (simp add: toString_def natToString.simps)

lemma generateNumber_map:
  assumes "unitInterval rnd"
  shows "generateNumber L rnd =
           map (\<lambda>i. digitChar (nat (Math_floor (multiply (rnd i) (Float64 10 0))))) [0..<nat L]"
proof -
  have "toString (Num (Math_floor (multiply (rnd i) (Float64 10 0))))
          = [digitChar (nat (Math_floor (multiply (rnd i) (Float64 10 0))))]" for i
    using assms by (intro toString_digit floor_times_ten) (simp_all add: unitInterval_def)
  then show ?thesis
    by (simp add: generateNumber_def join_empty_sep)
qed

lemma unitInterval_shift: "unitInterval rnd \<Longrightarrow> unitInterval (\<lambda>i. rnd (i + k))"
  by (simp add: unitInterval_def)

lemma generateNumber_length:
  "unitInterval rnd \<Longrightarrow> length (generateNumber L rnd) = nat L"
  by (simp add: generateNumber_map)

lemma generateNumber_isDigit:
  assumes "unitInterval rnd"
  shows "\<forall>c \<in> set (generateNumber L rnd). isDigit c"
proof -
  have "nat (Math_floor (multiply (rnd i) (Float64 10 0))) < 10" for i
  proof -
    from assms have "isFloat64 (rnd i)" and "valueOf (rnd i) < 1"
      by (simp_all add: unitInterval_def)
    then have "Math_floor (multiply (rnd i) (Float64 10 0)) < 10" by (rule floor_times_ten(2))
    then show ?thesis by linarith
  qed
  then show ?thesis
    by (auto simp: generateNumber_map[OF assms] isDigit_digitChar)
qed

lemma roundTarget_startRound:
  assumes "unitInterval (random s)" and "1 \<le> L" and "level s' = L"
    and "number s' = generateNumber L (random s)" and "input s' = []" and "phase s' = Show"
    and "random s' = (\<lambda>i. random s (i + nat L))"
  shows "roundTarget s'"
  using assms
  by (simp add: roundTarget_def unitInterval_shift generateNumber_length generateNumber_isDigit)

lemma reachable_roundTarget: "reachable s \<Longrightarrow> roundTarget s"
proof (induction rule: reachable.induct)
  case (init rnd)
  then show ?case by (simp add: initState_def roundTarget_def)
next
  case (step s e s')
  note rt = step.IH
  from step.hyps(2,3) show ?case
  proof (cases rule: fire_cases)
    case same
    with rt show ?thesis by simp
  next
    case start
    from rt have "unitInterval (random s)" by (simp add: roundTarget_def)
    then show ?thesis
      unfolding start
      by (rule roundTarget_startRound[where L = 1]) (simp_all add: start_fields)
  next
    case again
    from rt have "unitInterval (random s)" and "1 \<le> level s" by (simp_all add: roundTarget_def)
    then show ?thesis
      unfolding again
      by (rule roundTarget_startRound[where L = "level s"]) (simp_all add: next_fields)
  next
    case submit
    from rt submit(1) have "pending s = []" by (auto simp: roundTarget_def)
    with rt submit_fields[OF submit(2)] show ?thesis
      by (auto simp: roundTarget_def)
  next
    case (change v)
    with rt show ?thesis by (simp add: roundTarget_def onChange_def)
  next
    case mask
    with rt show ?thesis by (simp add: roundTarget_def toggleMask_def)
  next
    case tick
    with rt show ?thesis by (simp add: roundTarget_def intervalCallback_def)
  next
    case (expire i)
    let ?s1 = "s\<lparr>pending := filter (\<lambda>(j, t). j \<noteq> i) (pending s)\<rparr>"
    from step.hyps(1) have "timersTracked s" by (rule reachable_timersTracked)
    then have "timersTracked ?s1" by (auto simp: timersTracked_def)
    then have p: "pending (clearTimers ?s1) = []" by (rule clearTimers_tracked)
    from rt expire(1) have "phase s = Show" by (simp add: roundTarget_def)
    with rt p show ?thesis
      unfolding expire(2) by (simp add: roundTarget_def timeoutCallback_fields)
  next
    case reload
    with rt show ?thesis by (simp add: roundTarget_def initState_def)
  qed
qed

lemma unitInterval_sampleDoubles: "unitInterval sampleDoubles"
proof -
  let ?ds = "[Float64 5404319552844595 (- 54), Float64 9007199254740991 (- 53),
              Float64 1 (- 1), Float64 0 0, Float64 1 (- 1074)]"
  have all: "x \<in> set ?ds \<Longrightarrow> isFloat64 x \<and> valueOf x < 1" for x
    by auto
  have "sampleDoubles i \<in> set ?ds" for i
    unfolding sampleDoubles_def by (rule nth_mem) simp
  then show ?thesis
    unfolding unitInterval_def using all by blast
qed

lemma sampleDoubles_digits:
  "Math_floor (multiply (Float64 5404319552844595 (- 54)) (Float64 10 0)) = 3"
  "Math_floor (multiply (Float64 9007199254740991 (- 53)) (Float64 10 0)) = 9"
  "Math_floor (multiply (Float64 1 (- 1)) (Float64 10 0)) = 5"
  "Math_floor (multiply (Float64 (Suc 0) (- 1)) (Float64 10 0)) = 5"
  "Math_floor (multiply (Float64 0 0) (Float64 10 0)) = 0"
  "Math_floor (multiply (Float64 1 (- 1074)) (Float64 10 0)) = 0"
  "Math_floor (multiply (Float64 (Suc 0) (- 1074)) (Float64 10 0)) = 0"
  by (simp_all add: multiply.simps Let_def bitLength_values roundShift_def)

subsubsection \<open>The best streak and its stored print\<close>

lemma streakStored_fields:
  assumes "streakStored s" and "highStreak s' = highStreak s"
    and "localStorage s' = localStorage s"
  shows "streakStored s'"
  using assms by (auto simp: streakStored_def split: jsnum.splits option.splits)

lemma streakStored_Num:
  assumes "streakStored s"
  obtains h where "0 \<le> h" and "highStreak s = Num h"
  using assms by (auto simp: streakStored_def split: jsnum.splits)

lemma submit_streak:
  assumes "submit s = Inr s'"
  shows "(highStreak s' = highStreak s \<and> localStorage s' = localStorage s) \<or>
         (highStreak s' = Math_max (highStreak s) (Num (level s)) \<and>
          localStorage s' = (localStorage s)
            (''highStreak'' \<mapsto> toString (Math_max (highStreak s) (Num (level s)))))"
  using assms
  by (auto simp: submit_def updateHighStreak_def Let_def split: if_splits sum.splits)

lemma streakStored_submit:
  assumes "streakStored s" and "submit s = Inr s'"
  shows "streakStored s'"
proof -
  from assms(1) obtain h where h: "0 \<le> h" "highStreak s = Num h"
    by (rule streakStored_Num)
  from submit_streak[OF assms(2)] show ?thesis
  proof
    assume "highStreak s' = highStreak s \<and> localStorage s' = localStorage s"
    with assms(1) show ?thesis by (simp add: streakStored_fields)
  next
    assume "highStreak s' = Math_max (highStreak s) (Num (level s)) \<and>
            localStorage s' = (localStorage s)
              (''highStreak'' \<mapsto> toString (Math_max (highStreak s) (Num (level s))))"
    with h show ?thesis by (auto simp: streakStored_def Math_max_def)
  qed
qed

lemma streakStored_reload:
  assumes "streakStored s"
  shows "highStreak (initState (localStorage s) rnd) = highStreak s"
    and "streakStored (initState (localStorage s) rnd)"
proof -
  from assms obtain h where h: "0 \<le> h" "highStreak s = Num h"
    by (rule streakStored_Num)
  show eq: "highStreak (initState (localStorage s) rnd) = highStreak s"
  proof (cases "localStorage s ''highStreak''")
    case None
    with assms h show ?thesis
      by (auto simp: streakStored_def initState_def initialHighStreak_def)
  next
    case (Some stored)
    with assms h have "stored = toString (Num h)" by (auto simp: streakStored_def)
    with Some h show ?thesis
      by (simp add: initState_def initialHighStreak_def parseInt_toString toString_Num_nonempty)
  qed
  have "localStorage (initState (localStorage s) rnd) = localStorage s"
    by (simp add: initState_def)
  with assms eq show "streakStored (initState (localStorage s) rnd)"
    by (simp add: streakStored_fields)
qed

lemma streakStored_init: "streakStored (initState Map.empty rnd)"
  by (simp add: streakStored_def initState_def initialHighStreak_def)

lemma fire_streak:
  assumes "streakStored s" and "enabled e s" and "fire e s = Inr s'"
  shows "streakStored s'"
    and "\<exists>h h'. highStreak s = Num h \<and> highStreak s' = Num h' \<and> h \<le> h'"
proof -
  from assms(1) obtain h where h: "0 \<le> h" "highStreak s = Num h"
    by (rule streakStored_Num)
  have keep: "streakStored s' \<and> (\<exists>h h'. highStreak s = Num h \<and> highStreak s' = Num h' \<and> h \<le> h')"
    if "highStreak s' = highStreak s" and "localStorage s' = localStorage s"
    using that assms(1) h by (simp add: streakStored_fields)
  from assms(2,3)
  have "streakStored s' \<and> (\<exists>h h'. highStreak s = Num h \<and> highStreak s' = Num h' \<and> h \<le> h')"
  proof (cases rule: fire_cases)
    case same
    then show ?thesis by (intro keep) simp_all
  next
    case start
    then show ?thesis by (intro keep) (simp_all add: start_fields)
  next
    case again
    then show ?thesis by (intro keep) (simp_all add: next_fields)
  next
    case submit
    from submit_streak[OF submit(2)] h
    have "\<exists>h'. highStreak s' = Num h' \<and> h \<le> h'"
      by (auto simp: Math_max_def)
    with h streakStored_submit[OF assms(1) submit(2)] show ?thesis by simp
  next
    case (change v)
    then show ?thesis by (intro keep) (simp_all add: onChange_def)
  next
    case mask
    then show ?thesis by (intro keep) (simp_all add: toggleMask_def)
  next
    case tick
    then show ?thesis by (intro keep) (simp_all add: intervalCallback_def)
  next
    case (expire i)
    then show ?thesis by (intro keep) (simp_all add: timeoutCallback_fields)
  next
    case reload
    with h streakStored_reload[OF assms(1), of "random s"] show ?thesis by simp
  qed
  then show "streakStored s'"
    and "\<exists>h h'. highStreak s = Num h \<and> highStreak s' = Num h' \<and> h \<le> h'"
    by simp_all
qed

lemma fire_streak_lifetime:
  assumes "e \<noteq> Reload" and "enabled e u" and "fire e u = Inr u'" and "highStreak u = Num h"
  shows "\<exists>h'. highStreak u' = Num h' \<and> h \<le> h'"
  using assms(2,3)
proof (cases rule: fire_cases)
  case same
  with assms(4) show ?thesis by simp
next
  case start
  with assms(4) show ?thesis by (simp add: start_fields)
next
  case again
  with assms(4) show ?thesis by (simp add: next_fields)
next
  case submit
  from submit_streak[OF submit(2)] assms(4) show ?thesis
    by (auto simp: Math_max_def)
next
  case (change v)
  with assms(4) show ?thesis by (simp add: onChange_def)
next
  case mask
  with assms(4) show ?thesis by (simp add: toggleMask_def)
next
  case tick
  with assms(4) show ?thesis by (simp add: intervalCallback_def)
next
  case (expire i)
  with assms(4) show ?thesis by (simp add: timeoutCallback_fields)
next
  case reload
  with assms(1) show ?thesis by simp
qed

lemma reachable_streakStored: "reachable s \<Longrightarrow> streakStored s"
proof (induction rule: reachable.induct)
  case (init rnd)
  show ?case by (rule streakStored_init)
next
  case (step s e s')
  then show ?case by (simp add: fire_streak(1))
qed

subsubsection \<open>The sample session\<close>

lemmas run_simps =
  initState_def initialHighStreak_def start_def next_def startRound_def clearTimers_def
  setInterval_def setTimeout_def generateNumber_def toString_def natToString.simps
  digitChar_values digit_half timeoutCallback_def clearTimeout_def clearInterval_def onChange_def
  onSubmit_def handler_def submit_def updateHighStreak_def Math_max_def Let_def duration_def
  MAX_TIME_def MIN_TIME_def TIME_PER_DIGIT_def

lemma first_round_won:
  "run [StartClick, TimeoutFire 2, InputChange ''5'', FormSubmit]
          (initState Map.empty (\<lambda>i. oneHalf)) = Some afterFirstRound"
  by (simp add: run_simps afterFirstRound_def)

lemma second_round_typed:
  "run [NextClick, TimeoutFire 4, InputChange ''5''] afterFirstRound = Some shortInput"
  by (simp add: run_simps afterFirstRound_def shortInput_def upt_rec)

lemma run_append:
  "run (es @ fs) s = (case run es s of None \<Rightarrow> None | Some s' \<Rightarrow> run fs s')"
  by (induction es arbitrary: s) (simp_all split: sum.splits)

lemma reachable_afterFirstRound: "reachable afterFirstRound"
  using reachable.init[OF unitInterval_half] first_round_won by (rule run_reachable)

lemma reachable_shortInput: "reachable shortInput"
  using reachable_afterFirstRound second_round_typed by (rule run_reachable)

subsubsection \<open>Groups of a list\<close>

lemma multiple_ge:
  fixes n m :: nat
  assumes "0 < m" and "m mod n = 0"
  shows "n \<le> m"
proof (rule ccontr)
  assume "\<not> n \<le> m"
  then have "m mod n = m" by simp
  with assms show False by simp
qed

lemma groupsFromLeft_empty [simp]: "groupsFromLeft n [] = []"
  by (simp add: groupsFromLeft.simps)

lemma groupsFromLeft_step: "0 < n \<Longrightarrow> xs \<noteq> [] \<Longrightarrow> groupsFromLeft n xs = take n xs # groupsFromLeft n (drop n xs)"
  by (subst groupsFromLeft.simps) simp

lemma groupsFromLeft_single: "0 < n \<Longrightarrow> xs \<noteq> [] \<Longrightarrow> length xs \<le> n \<Longrightarrow> groupsFromLeft n xs = [xs]"
  by (simp add: groupsFromLeft_step)

lemma groupsFromLeft_concat: "0 < n \<Longrightarrow> concat (groupsFromLeft n xs) = xs"
proof (induction n xs rule: groupsFromLeft.induct)
  case (1 n xs)
  show ?case
  proof (cases "xs = []")
    case True
    then show ?thesis by simp
  next
    case False
    with 1 show ?thesis by (simp add: groupsFromLeft_step)
  qed
qed

lemma groupsFromLeft_append:
  "0 < n \<Longrightarrow> length ys mod n = 0 \<Longrightarrow> groupsFromLeft n (ys @ zs) = groupsFromLeft n ys @ groupsFromLeft n zs"
proof (induction n ys rule: groupsFromLeft.induct)
  case (1 n ys)
  show ?case
  proof (cases "ys = []")
    case True
    then show ?thesis by simp
  next
    case False
    from False "1.prems"(2) have len: "n \<le> length ys"
      by (intro multiple_ge) simp_all
    have m: "length (drop n ys) mod n = 0"
      using le_mod_geq[OF len] "1.prems"(2) by simp
    have "groupsFromLeft n (ys @ zs) = take n ys # groupsFromLeft n (drop n ys @ zs)"
      using False len "1.prems"(1) by (simp add: groupsFromLeft_step)
    also have "groupsFromLeft n (drop n ys @ zs) = groupsFromLeft n (drop n ys) @ groupsFromLeft n zs"
      using "1.IH" False "1.prems"(1) m by simp
    finally show ?thesis
      using False "1.prems"(1) by (simp add: groupsFromLeft_step)
  qed
qed

lemma groupsFromLeft_rev:
  "0 < n \<Longrightarrow> length xs mod n = 0 \<Longrightarrow> groupsFromLeft n (rev xs) = rev (map rev (groupsFromLeft n xs))"
proof (induction n xs rule: groupsFromLeft.induct)
  case (1 n xs)
  show ?case
  proof (cases "xs = []")
    case True
    then show ?thesis by simp
  next
    case False
    from False "1.prems"(2) have len: "n \<le> length xs"
      by (intro multiple_ge) simp_all
    have m: "length (drop n xs) mod n = 0"
      using le_mod_geq[OF len] "1.prems"(2) by simp
    have "rev xs = rev (drop n xs) @ rev (take n xs)"
      by (metis append_take_drop_id rev_append)
    then have "groupsFromLeft n (rev xs) = groupsFromLeft n (rev (drop n xs)) @ groupsFromLeft n (rev (take n xs))"
      using groupsFromLeft_append[OF "1.prems"(1), of "rev (drop n xs)" "rev (take n xs)"] m by simp
    also have "groupsFromLeft n (rev (take n xs)) = [rev (take n xs)]"
      using False "1.prems"(1) by (simp add: groupsFromLeft_single)
    also have "groupsFromLeft n (rev (drop n xs)) = rev (map rev (groupsFromLeft n (drop n xs)))"
      using "1.IH" False "1.prems"(1) m by simp
    finally show ?thesis
      using False "1.prems"(1) by (simp add: groupsFromLeft_step)
  qed
qed

lemma groupsFromLeft_widths:
  "0 < n \<Longrightarrow> length xs mod n = 0 \<Longrightarrow> g \<in> set (groupsFromLeft n xs) \<Longrightarrow> length g = n"
proof (induction n xs rule: groupsFromLeft.induct)
  case (1 n xs)
  show ?case
  proof (cases "xs = []")
    case True
    with "1.prems"(3) show ?thesis by simp
  next
    case False
    from False "1.prems"(2) have len: "n \<le> length xs"
      by (intro multiple_ge) simp_all
    have m: "length (drop n xs) mod n = 0"
      using le_mod_geq[OF len] "1.prems"(2) by simp
    from "1.prems"(3) have "g = take n xs \<or> g \<in> set (groupsFromLeft n (drop n xs))"
      unfolding groupsFromLeft_step[OF "1.prems"(1) False] by simp
    then show ?thesis
    proof
      assume "g = take n xs"
      with len show ?thesis by simp
    next
      assume "g \<in> set (groupsFromLeft n (drop n xs))"
      with False "1.prems"(1) m show ?thesis by (intro "1.IH") simp_all
    qed
  qed
qed

lemma groupsFromLeft_parts: "g \<in> set (groupsFromLeft n xs) \<Longrightarrow> g \<noteq> [] \<and> set g \<subseteq> set xs"
proof (induction n xs rule: groupsFromLeft.induct)
  case (1 n xs)
  show ?case
  proof (cases "n = 0 \<or> xs = []")
    case True
    with "1.prems" show ?thesis by (simp add: groupsFromLeft.simps)
  next
    case False
    then have n: "0 < n" and x: "xs \<noteq> []" by simp_all
    from "1.prems" have "g = take n xs \<or> g \<in> set (groupsFromLeft n (drop n xs))"
      unfolding groupsFromLeft_step[OF n x] by simp
    then show ?thesis
    proof
      assume "g = take n xs"
      with n x show ?thesis using set_take_subset[of n xs] by simp
    next
      assume "g \<in> set (groupsFromLeft n (drop n xs))"
      with False have "g \<noteq> [] \<and> set g \<subseteq> set (drop n xs)" by (intro "1.IH") simp_all
      then show ?thesis using set_drop_subset[of n xs] by blast
    qed
  qed
qed

lemma matchAt_plain:
  "\<forall>c \<in> set s. \<not> isLineTerminator c \<Longrightarrow> matchAt n s = take n s"
  by (simp add: matchAt_def takeWhile_eq_all_conv[THEN iffD2])

lemma matchAll_plain:
  "0 < n \<Longrightarrow> \<forall>c \<in> set s. \<not> isLineTerminator c \<Longrightarrow> matchAll n s = groupsFromLeft n s"
proof (induction n s rule: groupsFromLeft.induct)
  case (1 n s)
  show ?case
  proof (cases "s = []")
    case True
    then show ?thesis by (simp add: matchAll.simps)
  next
    case False
    from "1.prems"(2) have m: "matchAt n s = take n s" by (rule matchAt_plain)
    from "1.prems"(2) have "\<forall>c \<in> set (drop n s). \<not> isLineTerminator c"
      by (meson in_set_dropD)
    with "1.IH" False "1.prems"(1) have ih: "matchAll n (drop n s) = groupsFromLeft n (drop n s)"
      by simp
    have "drop (length (take n s)) s = drop n s"
      by (cases "n \<le> length s") (simp_all add: min_def)
    with False "1.prems"(1) m ih show ?thesis
      by (subst matchAll.simps) (simp add: groupsFromLeft_step)
  qed
qed

lemma join_Cons: "gs \<noteq> [] \<Longrightarrow> join sep (g # gs) = g @ sep @ join sep gs"
  by (cases gs) simp_all

lemma join_nonempty: "g \<noteq> [] \<Longrightarrow> join sep (g # gs) \<noteq> []"
  by (cases gs) simp_all

lemma chunkDigits_plain:
  assumes "0 < n" and "\<forall>c \<in> set s. \<not> isLineTerminator c"
  shows "chunkDigits s n =
           Inr (join '','' (take (firstGroupLength (length s) n) s
                            # groupsFromLeft n (drop (firstGroupLength (length s) n) s)))"
proof -
  let ?k = "firstGroupLength (length s) n"
  from assms(2) have "\<forall>c \<in> set (drop ?k s). \<not> isLineTerminator c"
    by (meson in_set_dropD)
  with assms(1) have m: "matchAll n (drop ?k s) = groupsFromLeft n (drop ?k s)"
    by (rule matchAll_plain)
  show ?thesis
  proof (cases "groupsFromLeft n (drop ?k s)")
    case Nil
    with m assms(1) show ?thesis
      by (simp add: chunkDigits_def firstGroupLength_def Let_def)
  next
    case (Cons g gs)
    then have "g \<in> set (groupsFromLeft n (drop ?k s))" by simp
    then have "g \<noteq> []" by (simp add: groupsFromLeft_parts)
    then have "join '','' (g # gs) \<noteq> []" by (rule join_nonempty)
    with Cons m assms(1) show ?thesis
      by (simp add: chunkDigits_def firstGroupLength_def[symmetric] Let_def join_Cons
            del: join.simps)
  qed
qed

lemma chunkDigits_index_plain:
  assumes "0 < n" and "\<forall>c \<in> set s. \<not> isLineTerminator c"
  shows "chunkDigits_index s n = Inr (join '' '' (groupsFromLeft n s))"
proof -
  from assms have m: "matchAll n s = groupsFromLeft n s" by (rule matchAll_plain)
  show ?thesis
  proof (cases "groupsFromLeft n s")
    case Nil
    moreover from groupsFromLeft_concat[OF assms(1), of s] Nil have "s = []" by simp
    ultimately show ?thesis using m assms(1) by (simp add: chunkDigits_index_def)
  next
    case (Cons g gs)
    with m assms(1) show ?thesis by (simp add: chunkDigits_index_def del: join.simps)
  qed
qed

lemma firstGroupLength_bounds:
  assumes "0 < n" and "0 < len"
  shows "0 < firstGroupLength len n" and "firstGroupLength len n \<le> n"
    and "firstGroupLength len n \<le> len" and "(len - firstGroupLength len n) mod n = 0"
proof -
  show "0 < firstGroupLength len n" "firstGroupLength len n \<le> n"
    using assms(1) by (simp_all add: firstGroupLength_def less_imp_le)
  show "firstGroupLength len n \<le> len"
    using assms multiple_ge[of len n] by (simp add: firstGroupLength_def)
  show "(len - firstGroupLength len n) mod n = 0"
  proof (cases "len mod n = 0")
    case True
    with assms have "n \<le> len" by (intro multiple_ge)
    from le_mod_geq[OF this] True show ?thesis by (simp add: firstGroupLength_def)
  next
    case False
    then show ?thesis by (simp add: firstGroupLength_def minus_mod_eq_mult_div)
  qed
qed

lemma groupsFromRight_eq:
  assumes "0 < n" and "s \<noteq> []"
  shows "groupsFromRight n s =
           take (firstGroupLength (length s) n) s # groupsFromLeft n (drop (firstGroupLength (length s) n) s)"
proof -
  let ?k = "firstGroupLength (length s) n"
  from assms have len: "0 < length s" by simp
  note b = firstGroupLength_bounds[OF assms(1) len]
  have t: "rev (take ?k s) \<noteq> []" "length (rev (take ?k s)) \<le> n"
    using b(1,2) assms(2) by simp_all
  have d: "length (rev (drop ?k s)) mod n = 0" "length (drop ?k s) mod n = 0"
    using b(4) by simp_all
  have "rev s = rev (drop ?k s) @ rev (take ?k s)"
    by (metis append_take_drop_id rev_append)
  then have "groupsFromLeft n (rev s) = groupsFromLeft n (rev (drop ?k s)) @ groupsFromLeft n (rev (take ?k s))"
    using groupsFromLeft_append[OF assms(1) d(1), of "rev (take ?k s)"] by simp
  also have "groupsFromLeft n (rev (take ?k s)) = [rev (take ?k s)]"
    using assms(1) t by (rule groupsFromLeft_single)
  also have "groupsFromLeft n (rev (drop ?k s)) = rev (map rev (groupsFromLeft n (drop ?k s)))"
    using assms(1) d(2) by (rule groupsFromLeft_rev)
  finally show ?thesis
    by (simp add: groupsFromRight_def rev_map o_def)
qed

lemma filter_no_sep: "sep \<notin> set x \<Longrightarrow> filter (\<lambda>c. c \<noteq> sep) x = x"
  by (induction x) auto

lemma filter_join_sep:
  "(\<And>g. g \<in> set gs \<Longrightarrow> sep \<notin> set g) \<Longrightarrow> filter (\<lambda>c. c \<noteq> sep) (join [sep] gs) = concat gs"
proof (induction "[sep]" gs rule: join.induct)
  case 1
  show ?case by simp
next
  case (2 x)
  then have "sep \<notin> set x" by simp
  then show ?case by (simp add: filter_no_sep)
next
  case (3 x y ys)
  from "3.prems" have fx: "filter (\<lambda>c. c \<noteq> sep) x = x"
    by (intro filter_no_sep) simp
  from "3.prems" have ih: "filter (\<lambda>c. c \<noteq> sep) (join [sep] (y # ys)) = concat (y # ys)"
    by (intro "3.hyps") simp
  show ?case
    unfolding join.simps(3) filter_append fx ih by simp
qed

lemma digits_plain:
  assumes "\<forall>c \<in> set s. c \<in> set ''0123456789''"
  shows "\<forall>c \<in> set s. \<not> isLineTerminator c" and "\<forall>c \<in> set s. c \<noteq> CHR '',''"
    and "\<forall>c \<in> set s. c \<noteq> CHR '' ''"
proof -
  from assms have d: "\<forall>c \<in> set s. isDigit c"
    by (simp only: isDigit_iff[symmetric])
  then show "\<forall>c \<in> set s. \<not> isLineTerminator c" using isDigit_not_special(4) by blast
  from d show "\<forall>c \<in> set s. c \<noteq> CHR '',''" using isDigit_not_special(5) by blast
  from d show "\<forall>c \<in> set s. c \<noteq> CHR '' ''" using isDigit_not_special(6) by blast
qed

lemma chunkDigits_three_digits: "chunkDigits ''1234567'' 3 = Inr ''1,234,567''"
  by (simp add: chunkDigits_def matchAll.simps matchAt_def isLineTerminator_def)

lemma chunkDigits_index_three_digits: "chunkDigits_index ''1234567'' 3 = Inr ''123 456 7''"
  by (simp add: chunkDigits_index_def matchAll.simps matchAt_def isLineTerminator_def)

lemma keeps_comma:
  assumes "\<forall>c \<in> set s. \<not> isLineTerminator c" and "\<forall>c \<in> set s. c \<noteq> CHR '',''"
  shows "\<exists>r. chunkDigits s 3 = Inr r \<and> filter (\<lambda>c. c \<noteq> CHR '','') r = s"
proof -
  let ?k = "firstGroupLength (length s) 3"
  let ?gs = "take ?k s # groupsFromLeft 3 (drop ?k s)"
  have c: "chunkDigits s 3 = Inr (join '','' ?gs)"
    using assms(1) by (intro chunkDigits_plain) simp_all
  have "CHR '','' \<notin> set g" if "g \<in> set ?gs" for g
  proof -
    from that have "g = take ?k s \<or> g \<in> set (groupsFromLeft 3 (drop ?k s))" by simp
    then have "set g \<subseteq> set s"
      using set_take_subset[of ?k s] set_drop_subset[of ?k s] groupsFromLeft_parts[of g 3 "drop ?k s"]
      by blast
    with assms(2) show ?thesis by blast
  qed
  then have "filter (\<lambda>c. c \<noteq> CHR '','') (join '','' ?gs) = concat ?gs"
    by (rule filter_join_sep)
  also have "concat ?gs = s"
    by (simp add: groupsFromLeft_concat)
  finally show ?thesis using c by blast
qed

lemma keeps_space:
  assumes "\<forall>c \<in> set s. \<not> isLineTerminator c" and "\<forall>c \<in> set s. c \<noteq> CHR '' ''"
  shows "\<exists>r. chunkDigits_index s 3 = Inr r \<and> filter (\<lambda>c. c \<noteq> CHR '' '') r = s"
proof -
  have c: "chunkDigits_index s 3 = Inr (join '' '' (groupsFromLeft 3 s))"
    using assms(1) by (intro chunkDigits_index_plain) simp_all
  have "CHR '' '' \<notin> set g" if "g \<in> set (groupsFromLeft 3 s)" for g
    using groupsFromLeft_parts[OF that] assms(2) by blast
  then have "filter (\<lambda>c. c \<noteq> CHR '' '') (join '' '' (groupsFromLeft 3 s)) = concat (groupsFromLeft 3 s)"
    by (rule filter_join_sep)
  also have "concat (groupsFromLeft 3 s) = s"
    by (simp add: groupsFromLeft_concat)
  finally show ?thesis using c by blast
qed

subsubsection \<open>A lost round\<close>

lemma highlight_full_length:
  assumes "length inp = length correct"
  shows "\<exists>parts. highlightMistakes inp correct = concat parts \<and>
           length parts = length correct \<and>
           (\<forall>i < length correct.
              (inp ! i \<noteq> correct ! i \<longrightarrow>
                 parts ! i = ''<span class=\"text-red-500 font-bold\">'' @ [inp ! i] @ ''</span>'') \<and>
              (inp ! i = correct ! i \<longrightarrow> parts ! i = [inp ! i])) \<and>
           (inp \<noteq> correct \<longrightarrow> (\<exists>i < length correct. inp ! i \<noteq> correct ! i))"
proof -
  let ?parts = "highlightMistakes_parts inp correct"
  have c: "highlightMistakes inp correct = concat ?parts"
    by (simp add: highlightMistakes_def join_empty_sep)
  have l: "length ?parts = length correct"
    using assms by (simp add: length_highlightMistakes_parts)
  have p: "(inp ! i \<noteq> correct ! i \<longrightarrow>
              ?parts ! i = ''<span class=\"text-red-500 font-bold\">'' @ [inp ! i] @ ''</span>'') \<and>
           (inp ! i = correct ! i \<longrightarrow> ?parts ! i = [inp ! i])"
    if "i < length correct" for i
    using that assms by (simp add: nth_highlightMistakes_parts charAt_def flagged_def)
  have d: "inp \<noteq> correct \<longrightarrow> (\<exists>i < length correct. inp ! i \<noteq> correct ! i)"
    using assms by (auto simp: list_eq_iff_nth_eq)
  from c l p d show ?thesis by blast
qed

lemma submit_different:
  assumes "input s \<noteq> number s"
  shows "\<exists>s' shown. chunkDigits (number s) 3 = Inr shown \<and> submit s = Inr s' \<and>
           phase s' = Result \<and> lastRoundFailed s' = True \<and> level s' = 1 \<and>
           message s' = Wrong shown (highlightMistakes (input s) (number s))"
proof -
  obtain shown where shown: "chunkDigits (number s) 3 = Inr shown"
    using chunkDigits_three by blast
  let ?s' = "s\<lparr>message := Wrong shown (highlightMistakes (input s) (number s)), level := 1,
                lastRoundFailed := True, phase := Result\<rparr>"
  have "submit s = Inr ?s'"
    using assms shown by (simp add: submit_def Let_def)
  with shown show ?thesis
    by (intro exI[of _ ?s'] exI[of _ shown]) simp
qed

subsection \<open>Submitting\<close>

text \<open>
  C1. In the phase \<open>input\<close>, \<open>submit\<close> on an input equal to the target ends in the phase
  \<open>result\<close> with \<open>lastRoundFailed\<close> false and the level one higher, and the best streak is
  \<open>Math.max\<close> of the old best streak and the level before the increment: for an old best
  streak \<open>b\<close> that is a number, the larger of \<open>b\<close> and that level.
\<close>

theorem submit_equal_levels_up:
  assumes "phase s = Input" and "input s = number s"
  shows "\<exists>s'. submit s = Inr s' \<and> phase s' = Result \<and> lastRoundFailed s' = False \<and>
              level s' = level s + 1 \<and>
              highStreak s' = Math_max (highStreak s) (Num (level s)) \<and>
              (\<forall>b. highStreak s = Num b \<longrightarrow> highStreak s' = Num (max b (level s)))"
  using assms by (simp add: submit_def updateHighStreak_def Let_def Math_max_def)

theorem submit_equal_levels_up_witness:
  "phase ((initState Map.empty (\<lambda>i. oneHalf))\<lparr>phase := Input, level := 4, number := ''5070'', input := ''5070''\<rparr>) = Input \<and>
   input ((initState Map.empty (\<lambda>i. oneHalf))\<lparr>phase := Input, level := 4, number := ''5070'', input := ''5070''\<rparr>) =
     number ((initState Map.empty (\<lambda>i. oneHalf))\<lparr>phase := Input, level := 4, number := ''5070'', input := ''5070''\<rparr>) \<and>
   (\<exists>s'. submit ((initState Map.empty (\<lambda>i. oneHalf))\<lparr>phase := Input, level := 4, number := ''5070'', input := ''5070''\<rparr>) = Inr s' \<and>
         phase s' = Result \<and> lastRoundFailed s' = False \<and> level s' = 5 \<and> highStreak s' = Num 4)"
  using submit_equal_levels_up
    [of "(initState Map.empty (\<lambda>i. oneHalf))\<lparr>phase := Input, level := 4, number := ''5070'', input := ''5070''\<rparr>"]
  by (auto simp: initState_def initialHighStreak_def)

text \<open>
  C2. \<open>submit\<close> on an input that is not the target ends in the phase \<open>result\<close> with
  \<open>lastRoundFailed\<close> true and the level 1, and the message carries
  \<open>highlightMistakes(input, number)\<close>. For an input as long as the target that output is
  one part per position of the target: the code unit of the input inside the red \<open>span\<close>
  where the two differ, the plain code unit where they agree, and at least one position
  is flagged. For a shorter input it is not: the output has parts for the positions of
  the input only. In the state \<open>shortInput\<close> of the sample session (the target is 55, the
  input 5) the Enter key on \<open>window\<close> submits; the input differs from the target at
  position 1, where it has no code unit, and the highlighted output is the plain 5, with
  nothing flagged.
\<close>

theorem submit_different_flags:
  "(\<forall>s. phase s = Input \<and> input s \<noteq> number s \<longrightarrow>
      (\<exists>s' shown. chunkDigits (number s) 3 = Inr shown \<and> submit s = Inr s' \<and>
         phase s' = Result \<and> lastRoundFailed s' = True \<and> level s' = 1 \<and>
         message s' = Wrong shown (highlightMistakes (input s) (number s)))) \<and>
   (\<forall>inp correct. length inp = length correct \<longrightarrow>
      (\<exists>parts. highlightMistakes inp correct = concat parts \<and>
         length parts = length correct \<and>
         (\<forall>i < length correct.
            (inp ! i \<noteq> correct ! i \<longrightarrow>
               parts ! i = ''<span class=\"text-red-500 font-bold\">'' @ [inp ! i] @ ''</span>'') \<and>
            (inp ! i = correct ! i \<longrightarrow> parts ! i = [inp ! i])) \<and>
         (inp \<noteq> correct \<longrightarrow> (\<exists>i < length correct. inp ! i \<noteq> correct ! i)))) \<and>
   reachable shortInput \<and> phase shortInput = Input \<and>
   input shortInput = ''5'' \<and> number shortInput = ''55'' \<and>
   input shortInput \<noteq> number shortInput \<and>
   charAt (input shortInput) 1 = None \<and> charAt (number shortInput) 1 = Some (CHR ''5'') \<and>
   highlightMistakes (input shortInput) (number shortInput) = ''5'' \<and>
   (\<exists>s'. fire (WindowKeyDown ''Enter'') shortInput = Inr s' \<and> phase s' = Result \<and>
         lastRoundFailed s' = True \<and> level s' = 1 \<and> message s' = Wrong ''55'' ''5'')"
proof -
  have f: "phase shortInput = Input" "number shortInput = ''55''" "input shortInput = ''5''"
    by (simp_all add: shortInput_def)
  have h: "highlightMistakes ''5'' ''55'' = ''5''"
    by (simp add: highlightMistakes_def highlightMistakes_parts_def charAt_def)
  have s: "\<exists>s'. fire (WindowKeyDown ''Enter'') shortInput = Inr s' \<and> phase s' = Result \<and>
         lastRoundFailed s' = True \<and> level s' = 1 \<and> message s' = Wrong ''55'' ''5''"
    by (simp add: handler_def submit_def f chunkDigits_def matchAll.simps matchAt_def h Let_def)
  have c: "charAt ''5'' 1 = None" "charAt ''55'' 1 = Some (CHR ''5'')"
    by (simp_all add: charAt_def)
  from f h s c reachable_shortInput submit_different highlight_full_length
  show ?thesis by (simp del: One_nat_def)
qed

theorem submit_different_flags_witness:
  "phase ((initState Map.empty (\<lambda>i. oneHalf))\<lparr>phase := Input, level := 3, number := ''507'', input := ''517''\<rparr>) = Input \<and>
   input ((initState Map.empty (\<lambda>i. oneHalf))\<lparr>phase := Input, level := 3, number := ''507'', input := ''517''\<rparr>) \<noteq>
     number ((initState Map.empty (\<lambda>i. oneHalf))\<lparr>phase := Input, level := 3, number := ''507'', input := ''517''\<rparr>) \<and>
   (\<exists>s'. submit ((initState Map.empty (\<lambda>i. oneHalf))\<lparr>phase := Input, level := 3, number := ''507'', input := ''517''\<rparr>) = Inr s' \<and>
         phase s' = Result \<and> lastRoundFailed s' = True \<and> level s' = 1 \<and>
         message s' = Wrong ''507'' ''5<span class=\"text-red-500 font-bold\">1</span>7'') \<and>
   length ''517'' = length ''507'' \<and>
   (\<exists>parts. highlightMistakes ''517'' ''507'' = concat parts \<and> length parts = 3 \<and>
         parts ! 0 = ''5'' \<and>
         parts ! 1 = ''<span class=\"text-red-500 font-bold\">1</span>'' \<and>
         parts ! 2 = ''7'') \<and>
   highlightMistakes ''517'' ''507'' = ''5<span class=\"text-red-500 font-bold\">1</span>7''"
proof -
  let ?s = "(initState Map.empty (\<lambda>i. oneHalf))\<lparr>phase := Input, level := 3, number := ''507'', input := ''517''\<rparr>"
  have h: "highlightMistakes ''517'' ''507'' = ''5<span class=\"text-red-500 font-bold\">1</span>7''"
    by (simp add: highlightMistakes_def highlightMistakes_parts_def charAt_def flagged_def upt_rec)
  have c: "chunkDigits ''507'' 3 = Inr ''507''"
    by (simp add: chunkDigits_def matchAll.simps matchAt_def)
  from submit_different_flags have
    "phase ?s = Input \<and> input ?s \<noteq> number ?s \<longrightarrow>
      (\<exists>s' shown. chunkDigits (number ?s) 3 = Inr shown \<and> submit ?s = Inr s' \<and>
         phase s' = Result \<and> lastRoundFailed s' = True \<and> level s' = 1 \<and>
         message s' = Wrong shown (highlightMistakes (input ?s) (number ?s)))"
    by blast
  then have a: "\<exists>s'. submit ?s = Inr s' \<and>
         phase s' = Result \<and> lastRoundFailed s' = True \<and> level s' = 1 \<and>
         message s' = Wrong ''507'' ''5<span class=\"text-red-500 font-bold\">1</span>7''"
    by (auto simp: initState_def h c)
  from submit_different_flags have
    "length ''517'' = length ''507'' \<longrightarrow>
      (\<exists>parts. highlightMistakes ''517'' ''507'' = concat parts \<and>
         length parts = length ''507'' \<and>
         (\<forall>i < length ''507''.
            (''517'' ! i \<noteq> ''507'' ! i \<longrightarrow>
               parts ! i = ''<span class=\"text-red-500 font-bold\">'' @ [''517'' ! i] @ ''</span>'') \<and>
            (''517'' ! i = ''507'' ! i \<longrightarrow> parts ! i = [''517'' ! i])) \<and>
         (''517'' \<noteq> ''507'' \<longrightarrow> (\<exists>i < length ''507''. ''517'' ! i \<noteq> ''507'' ! i)))"
    by blast
  then obtain parts where p: "highlightMistakes ''517'' ''507'' = concat parts"
    "length parts = 3"
    "\<And>i. i < 3 \<Longrightarrow>
        (''517'' ! i \<noteq> ''507'' ! i \<longrightarrow>
           parts ! i = ''<span class=\"text-red-500 font-bold\">'' @ [''517'' ! i] @ ''</span>'') \<and>
        (''517'' ! i = ''507'' ! i \<longrightarrow> parts ! i = [''517'' ! i])"
    by auto
  from p(3)[of 0] p(3)[of 1] p(3)[of 2]
  have q: "parts ! 0 = ''5''" "parts ! 1 = ''<span class=\"text-red-500 font-bold\">1</span>''"
    "parts ! 2 = ''7''"
    by simp_all
  have b: "\<exists>parts. highlightMistakes ''517'' ''507'' = concat parts \<and> length parts = 3 \<and>
         parts ! 0 = ''5'' \<and>
         parts ! 1 = ''<span class=\"text-red-500 font-bold\">1</span>'' \<and>
         parts ! 2 = ''7''"
    using p(1,2) q by blast
  have f: "phase ?s = Input" "input ?s \<noteq> number ?s" by simp_all
  from f a b h show ?thesis by simp
qed

subsection \<open>Timing\<close>

text \<open>
  C3. The duration that \<open>startRound\<close> computes for a level \<open>L\<close>, and gives to the timeout
  that ends the phase \<open>show\<close>, is \<open>clamp(L * 650, 1200, 6000)\<close>; it is 1200 at level 1,
  1300 at level 2 and 6000 at level 10.
\<close>

theorem duration_is_clamp:
  "duration L = clamp (L * 650) 1200 6000 \<and>
   (\<exists>i. timerRef (startRound L s) = Some i \<and>
        (i, Timeout (clamp (L * 650) 1200 6000)) \<in> set (pending (startRound L s))) \<and>
   duration 1 = 1200 \<and> duration 2 = 1300 \<and> duration 10 = 6000"
  by (simp add: duration_def clamp_def MAX_TIME_def MIN_TIME_def TIME_PER_DIGIT_def
        startRound_def setInterval_def setTimeout_def Let_def)

text \<open>
  C7. In every state of a session the countdown is not negative. \<open>startRound\<close> at a level
  \<open>L\<close> (and so \<open>start\<close> at level 1 and \<open>next\<close> at the current level) sets it to the
  ceiling of \<open>duration(L) / 1000\<close>; the callback of the interval sets it to
  \<open>max(0, c - 1)\<close>, which is \<open>c - 1\<close> while \<open>c\<close> is positive, and never makes it negative,
  also when it runs after the callback of the timeout, which has set it to 0.
\<close>

theorem countdown_clamped:
  assumes "reachable s"
  shows "0 \<le> countdown s \<and>
         countdown (startRound L s) = \<lceil>real_of_int (duration L) / 1000\<rceil> \<and>
         countdown (start s) = \<lceil>real_of_int (duration 1) / 1000\<rceil> \<and>
         countdown (next s) = \<lceil>real_of_int (duration (level s)) / 1000\<rceil> \<and>
         countdown (intervalCallback s) = max 0 (countdown s - 1) \<and>
         (0 < countdown s \<longrightarrow> countdown (intervalCallback s) = countdown s - 1) \<and>
         0 \<le> countdown (intervalCallback s) \<and>
         countdown (intervalCallback (timeoutCallback s)) = 0"
  using countdown_nonneg[OF assms]
  by (simp add: startRound_fields start_fields next_fields intervalCallback_def
        timeoutCallback_fields)

theorem countdown_clamped_witness:
  "reachable (start (initState Map.empty (\<lambda>i. oneHalf))) \<and>
   countdown (start (initState Map.empty (\<lambda>i. oneHalf))) = 2 \<and>
   countdown (intervalCallback (start (initState Map.empty (\<lambda>i. oneHalf)))) = 1 \<and>
   countdown (startRound 10 (start (initState Map.empty (\<lambda>i. oneHalf)))) = 6 \<and>
   countdown (intervalCallback (timeoutCallback (start (initState Map.empty (\<lambda>i. oneHalf))))) = 0"
  using countdown_clamped[OF reachable_start_init[OF unitInterval_half], of 10]
    reachable_start_init[OF unitInterval_half]
  by (simp add: start_fields duration_def MAX_TIME_def MIN_TIME_def TIME_PER_DIGIT_def)

subsection \<open>Timers\<close>

text \<open>
  C8. In every state of a session \<open>clearTimers\<close> leaves no timer active, so \<open>startRound\<close>
  (called by \<open>start\<close> and by \<open>next\<close>) ends with the interval and the timeout it has just
  set and no other, and with the input empty. After \<open>start\<close>, after \<open>next\<close> and after
  two calls of \<open>start\<close> in a row exactly one timeout and exactly one interval are active,
  and after the two calls none of the timers set before is.
\<close>

theorem startRound_one_timer_each:
  assumes "reachable s"
  shows "pending (clearTimers s) = [] \<and>
         pending (startRound L s)
           = [(nextId s, Interval 1000), (Suc (nextId s), Timeout (duration L))] \<and>
         input (startRound L s) = [] \<and> input (start s) = [] \<and> input (next s) = [] \<and>
         length (activeTimeouts (start s)) = 1 \<and> length (activeIntervals (start s)) = 1 \<and>
         length (activeTimeouts (next s)) = 1 \<and> length (activeIntervals (next s)) = 1 \<and>
         length (activeTimeouts (start (start s))) = 1 \<and>
         length (activeIntervals (start (start s))) = 1 \<and>
         set (pending (start (start s))) \<inter> (set (pending s) \<union> set (pending (start s))) = {}"
proof -
  have t: "timersTracked s" using assms by (rule reachable_timersTracked)
  then have t1: "timersTracked (start s)" by (rule timersTracked_start)
  have old: "(j, t) \<in> set (pending s) \<Longrightarrow> j < nextId s" for j t
    using t by (auto simp: timersTracked_def)
  have old2: "(Suc (Suc (nextId s)), t) \<notin> set (pending s)"
    "(Suc (Suc (Suc (nextId s))), t) \<notin> set (pending s)" for t
    using old[of "Suc (Suc (nextId s))" t] old[of "Suc (Suc (Suc (nextId s)))" t] by auto
  have p2: "pending (start (start s))
              = [(Suc (Suc (nextId s)), Interval 1000), (Suc (Suc (Suc (nextId s))), Timeout (duration 1))]"
    unfolding pending_start[OF t1] by (simp add: start_fields)
  have fresh: "set (pending (start (start s))) \<inter> (set (pending s) \<union> set (pending (start s))) = {}"
    unfolding p2 pending_start[OF t] by (simp add: old2)
  have c1: "pending (clearTimers s) = []"
    using t by (rule clearTimers_tracked)
  have c2: "pending (startRound L s)
              = [(nextId s, Interval 1000), (Suc (nextId s), Timeout (duration L))]"
    using t by (rule timersTracked_startRound(2))
  have c3: "input (startRound L s) = []" "input (start s) = []" "input (next s) = []"
    by (simp_all add: startRound_fields start_fields next_fields)
  have c4: "length (activeTimeouts (start s)) = 1" "length (activeIntervals (start s)) = 1"
    unfolding activeTimeouts_def activeIntervals_def pending_start[OF t] by simp_all
  have c5: "length (activeTimeouts (next s)) = 1" "length (activeIntervals (next s)) = 1"
    unfolding activeTimeouts_def activeIntervals_def pending_next[OF t] by simp_all
  have c6: "length (activeTimeouts (start (start s))) = 1"
    "length (activeIntervals (start (start s))) = 1"
    unfolding activeTimeouts_def activeIntervals_def p2 by simp_all
  from c1 c2 c3 c4 c5 c6 fresh show ?thesis by blast
qed

theorem startRound_one_timer_each_witness:
  "reachable (start (initState Map.empty (\<lambda>i. oneHalf))) \<and>
   pending (start (initState Map.empty (\<lambda>i. oneHalf))) = [(1, Interval 1000), (2, Timeout 1200)] \<and>
   pending (clearTimers (start (initState Map.empty (\<lambda>i. oneHalf)))) = [] \<and>
   pending (startRound 2 (start (initState Map.empty (\<lambda>i. oneHalf))))
     = [(3, Interval 1000), (4, Timeout 1300)] \<and>
   length (activeTimeouts (start (start (initState Map.empty (\<lambda>i. oneHalf))))) = 1 \<and>
   length (activeIntervals (start (start (initState Map.empty (\<lambda>i. oneHalf))))) = 1"
proof -
  let ?s0 = "initState Map.empty (\<lambda>i. oneHalf)"
  have r: "reachable (start ?s0)"
    by (rule reachable_start_init[OF unitInterval_half])
  have n0: "nextId ?s0 = 1" by (simp add: initState_def)
  have n1: "nextId (start ?s0) = 3" by (simp add: start_fields n0)
  have d: "duration 1 = 1200" "duration 2 = 1300"
    by (simp_all add: duration_def MAX_TIME_def MIN_TIME_def TIME_PER_DIGIT_def)
  show ?thesis
    using startRound_one_timer_each[OF r, of 2]
      startRound_one_timer_each[OF reachable.init[OF unitInterval_half], of 1] r
    by (simp add: n0 n1 d start_fields(6))
qed

subsection \<open>The target\<close>

text \<open>
  C9. For a length \<open>L\<close> of 1 or more, and \<open>Math.random()\<close> returning doubles from 0
  (inclusive) up to 1 (exclusive), \<open>generateNumber(L)\<close> is a string of \<open>L\<close> code units,
  each one of \<open>0\<close> to \<open>9\<close>; and in every state of a session in the phase \<open>show\<close> or
  \<open>input\<close> the target is a string of digits as long as the level says. The product
  \<open>Math.random() * 10\<close> is the rounded product of doubles: on the double nearest to 0.3
  the digit is 3, on the largest double below 1 it is 9.
\<close>

theorem generateNumber_digits:
  "(1 \<le> L \<and> unitInterval rnd \<longrightarrow>
      int (length (generateNumber L rnd)) = L \<and>
      (\<forall>c \<in> set (generateNumber L rnd). c \<in> set ''0123456789'')) \<and>
   (reachable s \<and> (phase s = Show \<or> phase s = Input) \<longrightarrow>
      int (length (number s)) = level s \<and>
      (\<forall>c \<in> set (number s). c \<in> set ''0123456789''))"
proof (intro conjI impI)
  assume a: "1 \<le> L \<and> unitInterval rnd"
  then show "int (length (generateNumber L rnd)) = L"
    by (simp add: generateNumber_length)
  from a have "unitInterval rnd" by simp
  from generateNumber_isDigit[OF this]
  show "\<forall>c \<in> set (generateNumber L rnd). c \<in> set ''0123456789''"
    by (simp only: isDigit_iff)
next
  assume a: "reachable s \<and> (phase s = Show \<or> phase s = Input)"
  then have rt: "roundTarget s" by (simp add: reachable_roundTarget)
  with a show "int (length (number s)) = level s" by (auto simp: roundTarget_def)
  from rt have "\<forall>c \<in> set (number s). isDigit c" by (simp add: roundTarget_def)
  then show "\<forall>c \<in> set (number s). c \<in> set ''0123456789''" by (simp only: isDigit_iff)
qed

theorem generateNumber_digits_witness:
  "(1::int) \<le> 5 \<and> unitInterval sampleDoubles \<and>
   generateNumber 5 sampleDoubles = ''39500'' \<and>
   int (length (generateNumber 5 sampleDoubles)) = 5 \<and>
   reachable (start (initState Map.empty sampleDoubles)) \<and>
   phase (start (initState Map.empty sampleDoubles)) = Show \<and>
   number (start (initState Map.empty sampleDoubles)) = ''3'' \<and>
   int (length (number (start (initState Map.empty sampleDoubles)))) = 1"
proof -
  have g: "generateNumber 5 sampleDoubles = ''39500''"
    by (simp add: generateNumber_def toString_def natToString.simps upt_rec digitChar_values
          sampleDoubles_def sampleDoubles_digits)
  have n: "generateNumber 1 sampleDoubles = ''3''"
    by (simp add: generateNumber_def toString_def natToString.simps digitChar_values
          sampleDoubles_def sampleDoubles_digits)
  show ?thesis
    using generateNumber_digits[of 5 sampleDoubles "start (initState Map.empty sampleDoubles)"]
      reachable_start_init[OF unitInterval_sampleDoubles] unitInterval_sampleDoubles
    by (simp add: g n start_fields initState_def)
qed

subsection \<open>The best streak\<close>

text \<open>
  C6. In every state of a session (the sessions start on an empty \<open>localStorage\<close>, and the
  page may be loaded again any number of times) the best streak is an integer that is
  not negative; \<open>updateHighStreak\<close> replaces it with \<open>Math.max\<close> of itself and the new
  value; and no event makes it smaller. Within one life of the page (no reload) no event
  makes a best streak that is a number smaller, whatever state it starts from.
\<close>

theorem bestStreak_never_decreases:
  assumes "reachable s"
  shows "(\<exists>h. 0 \<le> h \<and> highStreak s = Num h) \<and>
         highStreak (updateHighStreak n s) = Math_max (highStreak s) (Num n) \<and>
         (\<forall>h. highStreak s = Num h \<longrightarrow> highStreak (updateHighStreak n s) = Num (max h n)) \<and>
         (\<forall>e s'. enabled e s \<and> fire e s = Inr s' \<longrightarrow>
            (\<exists>h h'. highStreak s = Num h \<and> highStreak s' = Num h' \<and> h \<le> h')) \<and>
         (\<forall>e u u' b. e \<noteq> Reload \<and> enabled e u \<and> fire e u = Inr u' \<and> highStreak u = Num b \<longrightarrow>
            (\<exists>b'. highStreak u' = Num b' \<and> b \<le> b'))"
proof -
  have st: "streakStored s" using assms by (rule reachable_streakStored)
  then obtain h where "0 \<le> h" and "highStreak s = Num h" by (rule streakStored_Num)
  then have a: "\<exists>h. 0 \<le> h \<and> highStreak s = Num h" by blast
  have b: "highStreak (updateHighStreak n s) = Math_max (highStreak s) (Num n)"
    by (simp add: updateHighStreak_def Let_def)
  have c: "\<forall>h. highStreak s = Num h \<longrightarrow> highStreak (updateHighStreak n s) = Num (max h n)"
    by (simp add: b Math_max_def)
  have d: "\<forall>e s'. enabled e s \<and> fire e s = Inr s' \<longrightarrow>
            (\<exists>h h'. highStreak s = Num h \<and> highStreak s' = Num h' \<and> h \<le> h')"
    using fire_streak(2)[OF st] by blast
  have e: "\<forall>e u u' b. e \<noteq> Reload \<and> enabled e u \<and> fire e u = Inr u' \<and> highStreak u = Num b \<longrightarrow>
            (\<exists>b'. highStreak u' = Num b' \<and> b \<le> b')"
    using fire_streak_lifetime by blast
  from a b c d e show ?thesis by blast
qed

theorem bestStreak_never_decreases_witness:
  "reachable afterFirstRound \<and> highStreak afterFirstRound = Num 1 \<and>
   highStreak (updateHighStreak 3 afterFirstRound) = Num 3 \<and>
   highStreak (updateHighStreak 0 afterFirstRound) = Num 1 \<and>
   enabled Reload afterFirstRound \<and>
   (\<exists>s'. fire Reload afterFirstRound = Inr s' \<and> highStreak s' = Num 1) \<and>
   enabled NextClick afterFirstRound \<and>
   (\<exists>s'. fire NextClick afterFirstRound = Inr s' \<and> highStreak s' = Num 1)"
proof -
  have hs: "highStreak afterFirstRound = Num 1"
    by (simp add: afterFirstRound_def)
  have u3: "highStreak (updateHighStreak 3 afterFirstRound) = Num 3"
    using bestStreak_never_decreases[OF reachable_afterFirstRound, of 3] hs
    by (simp add: Math_max_def)
  have u0: "highStreak (updateHighStreak 0 afterFirstRound) = Num 1"
    using bestStreak_never_decreases[OF reachable_afterFirstRound, of 0] hs
    by (simp add: Math_max_def)
  have re: "highStreak (initState (localStorage afterFirstRound) (random afterFirstRound)) = Num 1"
    by (simp add: afterFirstRound_def initState_def initialHighStreak_def parseInt_def
          isWhiteSpace_def isDigit_def digitValue_def)
  have ph: "phase afterFirstRound = Result"
    by (simp add: afterFirstRound_def)
  have nx: "highStreak (next afterFirstRound) = Num 1"
    by (simp add: next_fields hs)
  from reachable_afterFirstRound hs u3 u0 re ph nx show ?thesis by simp
qed

subsection \<open>Submitting a short input\<close>

text \<open>
  C5. The submit button is disabled unless the input is as long as the target, but the
  handler of the Enter key on \<open>window\<close> calls \<open>submit\<close> as soon as the input is not empty.
  In the sample session, with one of two digits typed, the form cannot be submitted, and
  the Enter key runs \<open>submit\<close> on the short input: the round is lost.
\<close>

theorem enter_key_submits_partial_input:
  "run [StartClick, TimeoutFire 2, InputChange ''5'', FormSubmit, NextClick, TimeoutFire 4,
        InputChange ''5''] (initState Map.empty (\<lambda>i. oneHalf)) = Some shortInput \<and>
   reachable shortInput \<and>
   phase shortInput = Input \<and> number shortInput = ''55'' \<and> input shortInput = ''5'' \<and>
   length (input shortInput) < length (number shortInput) \<and>
   \<not> enabled FormSubmit shortInput \<and>
   enabled (WindowKeyDown ''Enter'') shortInput \<and>
   fire (WindowKeyDown ''Enter'') shortInput = submit shortInput \<and>
   (\<exists>s'. submit shortInput = Inr s' \<and> phase s' = Result \<and> lastRoundFailed s' = True \<and>
         level s' = 1 \<and> message s' = Wrong ''55'' ''5'')"
proof -
  have "run ([StartClick, TimeoutFire 2, InputChange ''5'', FormSubmit] @
             [NextClick, TimeoutFire 4, InputChange ''5''])
          (initState Map.empty (\<lambda>i. oneHalf)) = Some shortInput"
    by (simp only: run_append first_round_won option.case second_round_typed)
  then have r: "run [StartClick, TimeoutFire 2, InputChange ''5'', FormSubmit, NextClick,
                     TimeoutFire 4, InputChange ''5''] (initState Map.empty (\<lambda>i. oneHalf))
                  = Some shortInput"
    by simp
  have f: "phase shortInput = Input" "number shortInput = ''55''" "input shortInput = ''5''"
    by (simp_all add: shortInput_def)
  have k: "fire (WindowKeyDown ''Enter'') shortInput = submit shortInput"
    by (simp add: handler_def f)
  have s: "\<exists>s'. submit shortInput = Inr s' \<and> phase s' = Result \<and> lastRoundFailed s' = True \<and>
         level s' = 1 \<and> message s' = Wrong ''55'' ''5''"
    by (simp add: submit_def f chunkDigits_def matchAll.simps matchAt_def highlightMistakes_def
          highlightMistakes_parts_def charAt_def Let_def)
  from r reachable_shortInput f k s show ?thesis by simp
qed

subsection \<open>Formatting\<close>

text \<open>
  C4, as amended. For every string \<open>s\<close> of digits, \<open>chunkDigits(s, 3)\<close> of \<open>part_000\<close> is
  the groups of \<open>s\<close> cut from the right in threes, joined by commas: the groups
  concatenate to \<open>s\<close>, every group but the first has three digits, and for a non-empty
  \<open>s\<close> the first has \<open>len % 3\<close> digits, or 3 when \<open>len\<close> is divisible by 3;
  \<open>1234567\<close> gives \<open>1,234,567\<close>. \<open>chunkDigits(s, 3)\<close> of \<open>pages/index.tsx\<close> is the groups
  of \<open>s\<close> cut from the left in threes, joined by spaces; \<open>1234567\<close> gives \<open>123 456 7\<close>.
\<close>

theorem chunkDigits_groups_from_right:
  assumes "\<forall>c \<in> set s. c \<in> set ''0123456789''"
  shows "chunkDigits s 3 = Inr (join '','' (groupsFromRight 3 s)) \<and>
         concat (groupsFromRight 3 s) = s \<and>
         (\<forall>g \<in> set (tl (groupsFromRight 3 s)). length g = 3) \<and>
         (s \<noteq> [] \<longrightarrow>
            groupsFromRight 3 s \<noteq> [] \<and>
            length (hd (groupsFromRight 3 s)) = firstGroupLength (length s) 3) \<and>
         chunkDigits_index s 3 = Inr (join '' '' (groupsFromLeft 3 s)) \<and>
         chunkDigits ''1234567'' 3 = Inr ''1,234,567'' \<and>
         chunkDigits_index ''1234567'' 3 = Inr ''123 456 7''"
proof -
  let ?k = "firstGroupLength (length s) 3"
  note plain = digits_plain(1)[OF assms]
  have c: "chunkDigits s 3 = Inr (join '','' (take ?k s # groupsFromLeft 3 (drop ?k s)))"
    using plain by (intro chunkDigits_plain) simp_all
  have i: "chunkDigits_index s 3 = Inr (join '' '' (groupsFromLeft 3 s))"
    using plain by (intro chunkDigits_index_plain) simp_all
  show ?thesis
  proof (cases "s = []")
    case True
    then show ?thesis
      using c i chunkDigits_three_digits chunkDigits_index_three_digits
      by (simp add: groupsFromRight_def)
  next
    case False
    then have len: "0 < length s" by simp
    note b = firstGroupLength_bounds[OF _ len, of 3]
    have g: "groupsFromRight 3 s = take ?k s # groupsFromLeft 3 (drop ?k s)"
      using False by (intro groupsFromRight_eq) simp_all
    have g1: "concat (groupsFromRight 3 s) = s"
      unfolding g by (simp add: groupsFromLeft_concat)
    have g2: "\<forall>g \<in> set (tl (groupsFromRight 3 s)). length g = 3"
    proof
      fix x assume "x \<in> set (tl (groupsFromRight 3 s))"
      then have "x \<in> set (groupsFromLeft 3 (drop ?k s))" unfolding g by simp
      moreover have "length (drop ?k s) mod 3 = 0" using b(4) by simp
      ultimately show "length x = 3" by (intro groupsFromLeft_widths[of 3 "drop ?k s"]) simp_all
    qed
    have g3: "length (hd (groupsFromRight 3 s)) = ?k"
      unfolding g using b(3) by simp
    have c': "chunkDigits s 3 = Inr (join '','' (groupsFromRight 3 s))"
      using c g by simp
    have g0: "groupsFromRight 3 s \<noteq> []"
      using g by simp
    from c' g0 g1 g2 g3 i chunkDigits_three_digits chunkDigits_index_three_digits
    show ?thesis by blast
  qed
qed

theorem chunkDigits_groups_from_right_witness:
  "chunkDigits ''12345'' 3 = Inr ''12,345'' \<and>
   groupsFromRight 3 ''12345'' = [''12'', ''345''] \<and>
   firstGroupLength (length ''12345'') 3 = 2 \<and>
   chunkDigits_index ''12345'' 3 = Inr ''123 45''"
  using chunkDigits_groups_from_right[of "''12345''"]
  by (simp add: groupsFromRight_def groupsFromLeft.simps firstGroupLength_def)

text \<open>
  C4 as it was stated fails: \<open>chunkDigits\<close> of \<open>pages/index.tsx\<close> groups \<open>1234567\<close> from
  the left and with spaces; and for the empty string, where the stated length of the
  first group is 3, the result of \<open>chunkDigits\<close> of \<open>part_000\<close> is empty.
\<close>

theorem chunkDigits_index_groups_from_left:
  "chunkDigits_index ''1234567'' 3 = Inr ''123 456 7'' \<and>
   chunkDigits_index ''1234567'' 3 \<noteq> Inr ''1,234,567'' \<and>
   chunkDigits [] 3 = Inr [] \<and> firstGroupLength (length ([] :: string)) 3 = 3"
  by (simp add: chunkDigits_index_three_digits chunkDigits_def matchAll.simps
        firstGroupLength_def)

text \<open>
  C10, as amended. For every string \<open>s\<close> without a line terminator and without a comma,
  \<open>chunkDigits(s, 3)\<close> of \<open>part_000\<close> without its commas is \<open>s\<close>; for every string \<open>s\<close>
  without a line terminator and without a space, \<open>chunkDigits(s, 3)\<close> of
  \<open>pages/index.tsx\<close> without its spaces is \<open>s\<close>; both hold for every string of digits,
  and both functions map the empty string to itself.
\<close>

theorem chunkDigits_keeps_content:
  "((\<forall>c \<in> set s. \<not> isLineTerminator c \<and> c \<noteq> CHR '','') \<longrightarrow>
      (\<exists>r. chunkDigits s 3 = Inr r \<and> filter (\<lambda>c. c \<noteq> CHR '','') r = s)) \<and>
   ((\<forall>c \<in> set s. \<not> isLineTerminator c \<and> c \<noteq> CHR '' '') \<longrightarrow>
      (\<exists>r. chunkDigits_index s 3 = Inr r \<and> filter (\<lambda>c. c \<noteq> CHR '' '') r = s)) \<and>
   ((\<forall>c \<in> set s. c \<in> set ''0123456789'') \<longrightarrow>
      (\<exists>r. chunkDigits s 3 = Inr r \<and> filter (\<lambda>c. c \<noteq> CHR '','') r = s) \<and>
      (\<exists>r. chunkDigits_index s 3 = Inr r \<and> filter (\<lambda>c. c \<noteq> CHR '' '') r = s)) \<and>
   chunkDigits [] 3 = Inr [] \<and> chunkDigits_index [] 3 = Inr []"
proof (intro conjI impI)
  assume "\<forall>c \<in> set s. \<not> isLineTerminator c \<and> c \<noteq> CHR '',''"
  then show "\<exists>r. chunkDigits s 3 = Inr r \<and> filter (\<lambda>c. c \<noteq> CHR '','') r = s"
    by (intro keeps_comma) blast+
next
  assume "\<forall>c \<in> set s. \<not> isLineTerminator c \<and> c \<noteq> CHR '' ''"
  then show "\<exists>r. chunkDigits_index s 3 = Inr r \<and> filter (\<lambda>c. c \<noteq> CHR '' '') r = s"
    by (intro keeps_space) blast+
next
  assume d: "\<forall>c \<in> set s. c \<in> set ''0123456789''"
  show "\<exists>r. chunkDigits s 3 = Inr r \<and> filter (\<lambda>c. c \<noteq> CHR '','') r = s"
    using digits_plain(1,2)[OF d] by (rule keeps_comma)
  show "\<exists>r. chunkDigits_index s 3 = Inr r \<and> filter (\<lambda>c. c \<noteq> CHR '' '') r = s"
    using digits_plain(1,3)[OF d] by (rule keeps_space)
next
  show "chunkDigits [] 3 = Inr []"
    by (simp add: chunkDigits_def matchAll.simps)
  show "chunkDigits_index [] 3 = Inr []"
    by (simp add: chunkDigits_index_def matchAll.simps)
qed

theorem chunkDigits_keeps_content_witness:
  "chunkDigits ''1234567'' 3 = Inr ''1,234,567'' \<and>
   filter (\<lambda>c. c \<noteq> CHR '','') ''1,234,567'' = ''1234567'' \<and>
   chunkDigits_index ''1234567'' 3 = Inr ''123 456 7'' \<and>
   filter (\<lambda>c. c \<noteq> CHR '' '') ''123 456 7'' = ''1234567'' \<and>
   chunkDigits ''ab cd'' 3 = Inr ''ab, cd'' \<and>
   chunkDigits_index ''ab,cd'' 3 = Inr ''ab, cd''"
  using chunkDigits_keeps_content[of "''1234567''"] chunkDigits_keeps_content[of "''ab cd''"]
    chunkDigits_keeps_content[of "''ab,cd''"]
  by (simp add: chunkDigits_three_digits chunkDigits_index_three_digits chunkDigits_def
        chunkDigits_index_def matchAll.simps matchAt_def isLineTerminator_def)

text \<open>
  C10 as it was stated fails: the pattern \<open>.{1,3}\<close> does not match a line terminator, so
  both functions drop the line feed of their input.
\<close>

theorem chunkDigits_drops_line_terminator:
  "chunkDigits [CHR ''1'', CHR ''2'', CHR ''3'', CHR ''4'', CHR 0x0A] 3 = Inr ''12,34'' \<and>
   filter (\<lambda>c. c \<noteq> CHR '','') ''12,34'' \<noteq> [CHR ''1'', CHR ''2'', CHR ''3'', CHR ''4'', CHR 0x0A] \<and>
   chunkDigits_index [CHR ''1'', CHR ''2'', CHR 0x0A, CHR ''3'', CHR ''4''] 3 = Inr ''12 34'' \<and>
   filter (\<lambda>c. c \<noteq> CHR '' '') ''12 34'' \<noteq> [CHR ''1'', CHR ''2'', CHR 0x0A, CHR ''3'', CHR ''4'']"
  by (simp add: chunkDigits_def chunkDigits_index_def matchAll.simps matchAt_def
        isLineTerminator_def)

end
